theory Spec2Isabelle
  imports Complex_Main "HOL-Library.Word"
begin

section \<open>Text and bytes\<close>

text \<open>
  A Python \<open>str\<close> is a sequence of Unicode code points, a \<open>bytes\<close> object a sequence of
  octets. The client moves between the two with \<open>encode('utf-8')\<close> and
  \<open>decode('utf-8')\<close>, both strict.
\<close>

type_synonym byte = "8 word"
type_synonym ustr = "nat list"

datatype error =
    OSError
  | UnicodeDecodeError
  | UnicodeEncodeError
  | JSONDecodeError
  | ValueError
  | TypeError
  | KeyError
  | OverflowError
  | CallbackException

definition lit :: "string \<Rightarrow> ustr" where
  "lit cs = map of_char cs"

definition nl :: nat where
  "nl = 10"

definition space :: nat where
  "space = 32"

definition is_cont :: "nat \<Rightarrow> bool" where
  "is_cont b = (128 \<le> b \<and> b < 192)"

definition cons_ok :: "'a \<Rightarrow> error + 'a list \<Rightarrow> error + 'a list" where
  "cons_ok x r = (case r of Inl e \<Rightarrow> Inl e | Inr xs \<Rightarrow> Inr (x # xs))"

text \<open>
  The strict UTF-8 decoder of \<open>bytes.decode\<close>, on the octets read as numbers: shortest
  form only, no surrogates, nothing above U+10FFFF, and a sequence cut off by the end of
  the input is an error like any other malformed one.
\<close>

fun decode_points :: "nat list \<Rightarrow> error + ustr" where
  "decode_points [] = Inr []"
| "decode_points (b0 # bs) =
    (if b0 < 128 then cons_ok b0 (decode_points bs)
     else if 194 \<le> b0 \<and> b0 \<le> 223 then
       (case bs of
          b1 # r \<Rightarrow>
            if is_cont b1
            then cons_ok ((b0 - 192) * 64 + (b1 - 128)) (decode_points r)
            else Inl UnicodeDecodeError
        | _ \<Rightarrow> Inl UnicodeDecodeError)
     else if 224 \<le> b0 \<and> b0 \<le> 239 then
       (case bs of
          b1 # b2 # r \<Rightarrow>
            if (if b0 = 224 then 160 else 128) \<le> b1 \<and> b1 < (if b0 = 237 then 160 else 192)
               \<and> is_cont b2
            then cons_ok ((b0 - 224) * 4096 + (b1 - 128) * 64 + (b2 - 128)) (decode_points r)
            else Inl UnicodeDecodeError
        | _ \<Rightarrow> Inl UnicodeDecodeError)
     else if 240 \<le> b0 \<and> b0 \<le> 244 then
       (case bs of
          b1 # b2 # b3 # r \<Rightarrow>
            if (if b0 = 240 then 144 else 128) \<le> b1 \<and> b1 < (if b0 = 244 then 144 else 192)
               \<and> is_cont b2 \<and> is_cont b3
            then cons_ok ((b0 - 240) * 262144 + (b1 - 128) * 4096 + (b2 - 128) * 64 + (b3 - 128))
                   (decode_points r)
            else Inl UnicodeDecodeError
        | _ \<Rightarrow> Inl UnicodeDecodeError)
     else Inl UnicodeDecodeError)"

definition utf8_decode :: "byte list \<Rightarrow> error + ustr" where
  "utf8_decode bs = decode_points (map unat bs)"

definition encode_point :: "nat \<Rightarrow> error + byte list" where
  "encode_point cp =
    (if cp < 128 then Inr [of_nat cp]
     else if cp < 2048 then Inr [of_nat (192 + cp div 64), of_nat (128 + cp mod 64)]
     else if 55296 \<le> cp \<and> cp \<le> 57343 then Inl UnicodeEncodeError
     else if cp < 65536 then
       Inr [of_nat (224 + cp div 4096), of_nat (128 + cp div 64 mod 64), of_nat (128 + cp mod 64)]
     else if cp < 1114112 then
       Inr [of_nat (240 + cp div 262144), of_nat (128 + cp div 4096 mod 64),
            of_nat (128 + cp div 64 mod 64), of_nat (128 + cp mod 64)]
     else Inl UnicodeEncodeError)"

fun utf8_encode :: "ustr \<Rightarrow> error + byte list" where
  "utf8_encode [] = Inr []"
| "utf8_encode (cp # cps) =
    (case encode_point cp of
       Inl e \<Rightarrow> Inl e
     | Inr bs \<Rightarrow> (case utf8_encode cps of Inl e \<Rightarrow> Inl e | Inr r \<Rightarrow> Inr (bs @ r)))"

text \<open>
  \<open>str.strip()\<close> with no argument removes, at both ends, the characters for which
  \<open>str.isspace\<close> holds.
\<close>

definition py_isspace :: "nat \<Rightarrow> bool" where
  "py_isspace c =
    ((9 \<le> c \<and> c \<le> 13) \<or> (28 \<le> c \<and> c \<le> 32) \<or> c = 133 \<or> c = 160 \<or> c = 5760
     \<or> (8192 \<le> c \<and> c \<le> 8202) \<or> c = 8232 \<or> c = 8233 \<or> c = 8239 \<or> c = 8287
     \<or> c = 12288)"

definition py_strip :: "ustr \<Rightarrow> ustr" where
  "py_strip s = rev (dropWhile py_isspace (rev (dropWhile py_isspace s)))"

definition startswith :: "ustr \<Rightarrow> ustr \<Rightarrow> bool" where
  "startswith s p = (take (length p) s = p)"

text \<open>\<open>s.split(sep, maxsplit)\<close> for a separator of one character.\<close>

fun py_split :: "nat \<Rightarrow> nat \<Rightarrow> ustr \<Rightarrow> ustr list" where
  "py_split sep 0 s = [s]"
| "py_split sep (Suc n) s =
    (if sep \<in> set s
     then takeWhile (\<lambda>c. c \<noteq> sep) s # py_split sep n (tl (dropWhile (\<lambda>c. c \<noteq> sep) s))
     else [s])"

section \<open>Values decoded from JSON\<close>

text \<open>
  \<open>json.loads\<close> yields \<open>None\<close>, booleans, integers, floats, strings, lists and
  dictionaries with string keys; \<open>bytes(content)\<close> adds byte strings. A float is a
  finite double (a rational number) or one of the three special values.
\<close>

datatype pyfloat = Finite rat | PosInf | NegInf | NaN

datatype pyval =
    PNone
  | PBool bool
  | PInt int
  | PFloat pyfloat
  | PStr ustr
  | PBytes "byte list"
  | PList "pyval list"
  | PDict "(ustr \<times> pyval) list"

text \<open>\<open>message[key]\<close> for a string key: only a dictionary can be indexed so.\<close>

definition py_getitem :: "pyval \<Rightarrow> ustr \<Rightarrow> error + pyval" where
  "py_getitem message key =
    (case message of
       PDict kvs \<Rightarrow> (case map_of kvs key of None \<Rightarrow> Inl KeyError | Some v \<Rightarrow> Inr v)
     | _ \<Rightarrow> Inl TypeError)"

text \<open>\<open>msg_type == 2\<close>: an integer or a float equal to two; \<open>True\<close> is one.\<close>

definition py_is_two :: "pyval \<Rightarrow> bool" where
  "py_is_two v = (case v of PInt n \<Rightarrow> n = 2 | PFloat (Finite q) \<Rightarrow> q = 2 | _ \<Rightarrow> False)"

definition maxsize :: int where
  "maxsize = 2 ^ 63 - 1"

definition byte_of_item :: "pyval \<Rightarrow> error + byte" where
  "byte_of_item v =
    (case v of
       PInt n \<Rightarrow> if 0 \<le> n \<and> n < 256 then Inr (of_int n) else Inl ValueError
     | PBool b \<Rightarrow> Inr (if b then 1 else 0)
     | _ \<Rightarrow> Inl TypeError)"

fun bytes_of_items :: "pyval list \<Rightarrow> error + byte list" where
  "bytes_of_items [] = Inr []"
| "bytes_of_items (v # vs) =
    (case byte_of_item v of
       Inl e \<Rightarrow> Inl e
     | Inr b \<Rightarrow> cons_ok b (bytes_of_items vs))"

text \<open>
  \<open>bytes(content)\<close>: a byte string is returned as it is, an integer \<open>n\<close> gives \<open>n\<close> zero
  bytes, an iterable gives one byte per item (a dictionary iterates over its keys, which
  are strings), everything else is a \<open>TypeError\<close>. Memory is taken to suffice for any size
  up to \<open>sys.maxsize\<close>.
\<close>

definition py_bytes :: "pyval \<Rightarrow> error + byte list" where
  "py_bytes v =
    (case v of
       PBytes bs \<Rightarrow> Inr bs
     | PInt n \<Rightarrow>
         if n < 0 then Inl ValueError
         else if maxsize < n then Inl OverflowError
         else Inr (replicate (nat n) 0)
     | PBool b \<Rightarrow> Inr (replicate (if b then 1 else 0) 0)
     | PList vs \<Rightarrow> bytes_of_items vs
     | PDict kvs \<Rightarrow> (if kvs = [] then Inr [] else Inl TypeError)
     | _ \<Rightarrow> Inl TypeError)"

section \<open>The client\<close>

text \<open>
  The socket object is fresh, connected or closed. The reader thread holds its local
  \<open>buffer\<close> while it runs: it is at the top of its outer loop, about to test
  \<open>self.running\<close> (\<open>Looping\<close>), or past the test and inside \<open>recv\<close> (\<open>Receiving\<close>).
  \<open>sent\<close> collects what \<open>socket.send\<close> was given, \<open>console\<close> what
  the reader thread did that can be seen from outside: the callbacks it called, with
  their argument, and the lines it printed.
\<close>

datatype sock_state = Unconnected | Connected | Closed

datatype thread = NotStarted | Looping ustr | Receiving ustr | Exited

datatype 'cb event =
    Invoked 'cb pyval
  | PrintedMessageError error
  | PrintedReadError error

record 'cb client =
  sock :: sock_state
  sent :: "byte list list"
  response_queue :: "ustr list"
  subscriptions :: "ustr \<rightharpoonup> 'cb list"
  running :: bool
  read_thread :: thread
  console :: "'cb event list"

definition init :: "'cb client" where
  "init = \<lparr>sock = Unconnected, sent = [], response_queue = [], subscriptions = Map.empty,
           running = False, read_thread = NotStarted, console = []\<rparr>"

text \<open>
  \<open>_connect\<close>: \<open>socket.connect\<close> raises \<open>OSError\<close> when the peer cannot be reached
  (\<open>reachable\<close>) and when the socket is closed or connected already; the lines after it
  are not run then.
\<close>

definition connect :: "bool \<Rightarrow> 'cb client \<Rightarrow> error + 'cb client" where
  "connect reachable s =
    (if sock s = Unconnected \<and> reachable
     then Inr (s\<lparr>sock := Connected, running := True, read_thread := Looping []\<rparr>)
     else Inl OSError)"

subsection \<open>The reader thread\<close>

text \<open>
  A callback is a name \<open>'cb\<close>; \<open>raises cb v\<close> tells whether calling it with \<open>v\<close> raises an
  \<open>Exception\<close>. Callbacks are taken not to change their argument nor the client.
  \<open>loads\<close> is \<open>json.loads\<close>.

  \<open>convert\<close> is the statement \<open>if msg_type == 2: content = bytes(content)\<close>, \<open>call_all\<close>
  the loop over the callbacks of a channel. It stops at the first exception, raised by
  \<open>bytes(content)\<close> or by a callback, and hands it to the handler around the loop.
\<close>

definition convert :: "pyval \<Rightarrow> pyval \<Rightarrow> error + pyval" where
  "convert msg_type content =
    (if py_is_two msg_type then map_sum id PBytes (py_bytes content) else Inr content)"

fun call_all ::
  "('cb \<Rightarrow> pyval \<Rightarrow> bool) \<Rightarrow> pyval \<Rightarrow> 'cb list \<Rightarrow> pyval \<Rightarrow> 'cb event list
    \<Rightarrow> error option \<times> 'cb event list" where
  "call_all raises msg_type [] content out = (None, out)"
| "call_all raises msg_type (cb # cbs) content out =
    (case convert msg_type content of
       Inl e \<Rightarrow> (Some e, out)
     | Inr c \<Rightarrow>
         if raises cb c then (Some CallbackException, out @ [Invoked cb c])
         else call_all raises msg_type cbs c (out @ [Invoked cb c]))"

text \<open>The body of the \<open>try\<close> for a line that starts with \<open>Message\<close>.\<close>

definition dispatch ::
  "(ustr \<Rightarrow> error + pyval) \<Rightarrow> ('cb \<Rightarrow> pyval \<Rightarrow> bool) \<Rightarrow> ustr \<Rightarrow> 'cb client
    \<Rightarrow> error option \<times> 'cb event list" where
  "dispatch loads raises line s =
    (case py_split space 2 line of
       [_, channel, json_str] \<Rightarrow>
         (case loads json_str of
            Inl e \<Rightarrow> (Some e, console s)
          | Inr message \<Rightarrow>
              (case subscriptions s channel of
                 None \<Rightarrow> (None, console s)
               | Some cbs \<Rightarrow>
                   (case py_getitem message (lit ''Content'') of
                      Inl e \<Rightarrow> (Some e, console s)
                    | Inr content \<Rightarrow>
                        (case py_getitem message (lit ''Type'') of
                           Inl e \<Rightarrow> (Some e, console s)
                         | Inr msg_type \<Rightarrow> call_all raises msg_type cbs content (console s)))))
     | _ \<Rightarrow> (Some ValueError, console s))"

text \<open>One line taken off the buffer.\<close>

definition handle_line ::
  "(ustr \<Rightarrow> error + pyval) \<Rightarrow> ('cb \<Rightarrow> pyval \<Rightarrow> bool) \<Rightarrow> ustr \<Rightarrow> 'cb client \<Rightarrow> 'cb client" where
  "handle_line loads raises line s =
    (if line = [] then s
     else if startswith line (lit ''Message'') then
       (case dispatch loads raises line s of
          (None, out) \<Rightarrow> s\<lparr>console := out\<rparr>
        | (Some e, out) \<Rightarrow> s\<lparr>console := out @ [PrintedMessageError e]\<rparr>)
     else s\<lparr>response_queue := response_queue s @ [py_strip line]\<rparr>)"

text \<open>
  The inner loop, \<open>while '\n' in buffer: line, buffer = buffer.split('\n', 1)\<close>.
\<close>

function process_lines ::
  "(ustr \<Rightarrow> error + pyval) \<Rightarrow> ('cb \<Rightarrow> pyval \<Rightarrow> bool) \<Rightarrow> ustr \<Rightarrow> 'cb client
    \<Rightarrow> ustr \<times> 'cb client" where
  "process_lines loads raises buffer s =
    (if nl \<in> set buffer
     then process_lines loads raises (tl (dropWhile (\<lambda>c. c \<noteq> nl) buffer))
            (handle_line loads raises (takeWhile (\<lambda>c. c \<noteq> nl) buffer) s)
     else (buffer, s))"
  by pat_completeness auto
termination
proof (relation "measure (\<lambda>(loads, raises, buffer, s). length buffer)")
  show "wf (measure (\<lambda>(loads, raises, buffer, s). length buffer))"
    by simp
next
  fix loads :: "ustr \<Rightarrow> error + pyval" and raises :: "'cb \<Rightarrow> pyval \<Rightarrow> bool"
    and buffer :: ustr and s :: "'cb client"
  assume "nl \<in> set buffer"
  then have "dropWhile (\<lambda>c. c \<noteq> nl) buffer \<noteq> []"
    by simp
  then have "length (tl (dropWhile (\<lambda>c. c \<noteq> nl) buffer)) < length (dropWhile (\<lambda>c. c \<noteq> nl) buffer)"
    by (cases "dropWhile (\<lambda>c. c \<noteq> nl) buffer") simp_all
  moreover have "length (dropWhile (\<lambda>c. c \<noteq> nl) buffer) \<le> length buffer"
    by (rule length_dropWhile_le)
  ultimately show
    "((loads, raises, tl (dropWhile (\<lambda>c. c \<noteq> nl) buffer),
       handle_line loads raises (takeWhile (\<lambda>c. c \<noteq> nl) buffer) s),
      (loads, raises, buffer, s)) \<in> measure (\<lambda>(loads, raises, buffer, s). length buffer)"
    by simp
qed

declare process_lines.simps [simp del]

text \<open>
  The top of the outer loop: \<open>while self.running\<close> is tested, and \<open>recv\<close> is entered. A
  socket that is not connected makes \<open>recv\<close> raise \<open>OSError\<close> at once; on a connected one
  the thread waits inside \<open>recv\<close>.
\<close>

definition loop_top :: "'cb client \<Rightarrow> 'cb client" where
  "loop_top s =
    (case read_thread s of
       Looping buffer \<Rightarrow>
         if \<not> running s then s\<lparr>read_thread := Exited\<rparr>
         else if sock s \<noteq> Connected
         then s\<lparr>read_thread := Exited, console := console s @ [PrintedReadError OSError]\<rparr>
         else s\<lparr>read_thread := Receiving buffer\<rparr>
     | _ \<Rightarrow> s)"

text \<open>
  \<open>recv\<close> returns \<open>chunk\<close> (empty at the end of the stream) to the thread that waits in
  it, and the rest of the turn is run: \<open>running\<close> is not looked at again before the top
  of the loop, so what \<open>close\<close> did in the meantime does not stop this turn.
\<close>

definition recv_returns ::
  "(ustr \<Rightarrow> error + pyval) \<Rightarrow> ('cb \<Rightarrow> pyval \<Rightarrow> bool) \<Rightarrow> byte list \<Rightarrow> 'cb client \<Rightarrow> 'cb client" where
  "recv_returns loads raises chunk s =
    (case read_thread s of
       Receiving buffer \<Rightarrow>
         (case utf8_decode chunk of
            Inl e \<Rightarrow> s\<lparr>read_thread := Exited, console := console s @ [PrintedReadError e]\<rparr>
          | Inr data \<Rightarrow>
              if data = [] then s\<lparr>read_thread := Exited\<rparr>
              else
                (case process_lines loads raises (buffer @ data) s of
                   (buffer', s') \<Rightarrow> s'\<lparr>read_thread := Looping buffer'\<rparr>))
     | _ \<Rightarrow> s)"

text \<open>
  One chunk received: from the top of the loop a whole turn, from inside \<open>recv\<close> the
  rest of the turn in progress.
\<close>

definition reader_iter ::
  "(ustr \<Rightarrow> error + pyval) \<Rightarrow> ('cb \<Rightarrow> pyval \<Rightarrow> bool) \<Rightarrow> byte list \<Rightarrow> 'cb client \<Rightarrow> 'cb client" where
  "reader_iter loads raises chunk s = recv_returns loads raises chunk (loop_top s)"

fun read_responses ::
  "(ustr \<Rightarrow> error + pyval) \<Rightarrow> ('cb \<Rightarrow> pyval \<Rightarrow> bool) \<Rightarrow> byte list list \<Rightarrow> 'cb client \<Rightarrow> 'cb client" where
  "read_responses loads raises [] s = s"
| "read_responses loads raises (chunk # chunks) s =
    read_responses loads raises chunks (reader_iter loads raises chunk s)"

subsection \<open>The calling thread\<close>

text \<open>
  A call of the client raises, returns, or waits in \<open>response_queue.get()\<close> for a line that
  never comes.
\<close>

datatype 'a outcome = Raised error | Blocks | Returns 'a

definition map_outcome :: "('a \<Rightarrow> 'b) \<Rightarrow> 'a outcome \<Rightarrow> 'b outcome" where
  "map_outcome f out = (case out of Raised e \<Rightarrow> Raised e | Blocks \<Rightarrow> Blocks | Returns x \<Rightarrow> Returns (f x))"

text \<open>\<open>socket.send\<close> raises \<open>OSError\<close> unless the socket is connected.\<close>

definition sock_send :: "byte list \<Rightarrow> 'cb client \<Rightarrow> error + 'cb client" where
  "sock_send data s =
    (if sock s = Connected then Inr (s\<lparr>sent := sent s @ [data]\<rparr>) else Inl OSError)"

definition queue_get :: "'cb client \<Rightarrow> ustr outcome \<times> 'cb client" where
  "queue_get s =
    (case response_queue s of
       [] \<Rightarrow> (Blocks, s)
     | r # q \<Rightarrow> (Returns r, s\<lparr>response_queue := q\<rparr>))"

text \<open>
  \<open>_send_command\<close>. \<open>arriving\<close> is what the reader thread receives from the moment the
  command is sent until \<open>get\<close> returns, or all it ever receives if \<open>get\<close> never does.
\<close>

definition send_command ::
  "(ustr \<Rightarrow> error + pyval) \<Rightarrow> ('cb \<Rightarrow> pyval \<Rightarrow> bool) \<Rightarrow> ustr \<Rightarrow> byte list list \<Rightarrow> 'cb client
    \<Rightarrow> ustr outcome \<times> 'cb client" where
  "send_command loads raises command arriving s =
    (case utf8_encode (command @ [nl]) of
       Inl e \<Rightarrow> (Raised e, s)
     | Inr data \<Rightarrow>
         (case sock_send data s of
            Inl e \<Rightarrow> (Raised e, s)
          | Inr s' \<Rightarrow> queue_get (read_responses loads raises arriving s')))"

text \<open>
  \<open>set\<close>. \<open>fmt\<close> is the rendering an f-string gives a value that is not a string.
\<close>

definition set_value ::
  "(ustr \<Rightarrow> error + pyval) \<Rightarrow> ('cb \<Rightarrow> pyval \<Rightarrow> bool) \<Rightarrow> (pyval \<Rightarrow> ustr) \<Rightarrow> ustr \<Rightarrow> pyval
    \<Rightarrow> byte list list \<Rightarrow> 'cb client \<Rightarrow> bool outcome \<times> 'cb client" where
  "set_value loads raises fmt key val arriving s =
    (let rendered = (case val of PStr v \<Rightarrow> [34] @ v @ [34] | _ \<Rightarrow> fmt val)
     in case send_command loads raises (lit ''SET '' @ key @ [space] @ rendered) arriving s of
          (out, s') \<Rightarrow> (map_outcome (\<lambda>response. response = lit ''OK'') out, s'))"

definition subscribe ::
  "(ustr \<Rightarrow> error + pyval) \<Rightarrow> ('cb \<Rightarrow> pyval \<Rightarrow> bool) \<Rightarrow> ustr \<Rightarrow> 'cb \<Rightarrow> byte list list \<Rightarrow> 'cb client
    \<Rightarrow> bool outcome \<times> 'cb client" where
  "subscribe loads raises channel callback arriving s =
    (let registered =
           (case subscriptions s channel of None \<Rightarrow> [] | Some cbs \<Rightarrow> cbs) @ [callback];
         s1 = s\<lparr>subscriptions := (subscriptions s)(channel \<mapsto> registered)\<rparr>
     in case send_command loads raises (lit ''SUBSCRIBE '' @ channel) arriving s1 of
          (out, s') \<Rightarrow> (map_outcome (\<lambda>response. response = lit ''OK'') out, s'))"

text \<open>\<open>close\<close>; \<open>socket.close()\<close> on a closed socket does nothing.\<close>

definition close :: "'cb client \<Rightarrow> 'cb client" where
  "close s = s\<lparr>running := False, sock := Closed\<rparr>"

text \<open>
  Commands issued one after the other, each with what arrives while it waits. A call
  that raises or waits for ever ends the sequence.
\<close>

fun issue ::
  "(ustr \<Rightarrow> error + pyval) \<Rightarrow> ('cb \<Rightarrow> pyval \<Rightarrow> bool) \<Rightarrow> (ustr \<times> byte list list) list \<Rightarrow> 'cb client
    \<Rightarrow> ustr outcome list \<times> 'cb client" where
  "issue loads raises [] s = ([], s)"
| "issue loads raises ((command, arriving) # rest) s =
    (case send_command loads raises command arriving s of
       (Returns r, s') \<Rightarrow>
         (case issue loads raises rest s' of (outs, s'') \<Rightarrow> (Returns r # outs, s''))
     | (out, s') \<Rightarrow> ([out], s'))"

section \<open>Framing, as a function of the text received\<close>

text \<open>
  The lines that a text completes, after a partial line \<open>cur\<close>, and the partial line left.
\<close>

fun frame :: "ustr \<Rightarrow> ustr \<Rightarrow> ustr list \<times> ustr" where
  "frame cur [] = ([], cur)"
| "frame cur (c # cs) =
    (if c = nl then (case frame [] cs of (ls, r) \<Rightarrow> (cur # ls, r))
     else frame (cur @ [c]) cs)"

definition is_response :: "ustr \<Rightarrow> bool" where
  "is_response line = (line \<noteq> [] \<and> \<not> startswith line (lit ''Message''))"

text \<open>The texts of chunks that all decode, none of them the end of the stream.\<close>

fun decode_chunks :: "byte list list \<Rightarrow> ustr list option" where
  "decode_chunks [] = Some []"
| "decode_chunks (c # cs) =
    (case utf8_decode c of
       Inl e \<Rightarrow> None
     | Inr t \<Rightarrow> if t = [] then None else map_option ((#) t) (decode_chunks cs))"

text \<open>
  What arrives answers a command with \<open>reply\<close>: whole lines, one of them a response.
\<close>

definition answers :: "byte list list \<Rightarrow> ustr \<Rightarrow> bool" where
  "answers arriving reply =
    (case decode_chunks arriving of
       None \<Rightarrow> False
     | Some ts \<Rightarrow>
         (case frame [] (concat ts) of
            (ls, r) \<Rightarrow> r = [] \<and> filter is_response ls = [reply]))"

definition encodable :: "ustr \<Rightarrow> bool" where
  "encodable command = (case utf8_encode (command @ [nl]) of Inl e \<Rightarrow> False | Inr data \<Rightarrow> True)"

text \<open>One exchange of a session: the command, what arrives while it waits, the reply.\<close>

record exchange =
  cmd :: ustr
  arrives :: "byte list list"
  answer :: ustr

section \<open>Sample parameters\<close>

text \<open>
  A decoder that agrees with \<open>json.loads\<close> on two envelopes and on the malformed text
  \<open>{bad json\<close>, the only texts it is applied to; callbacks that never raise, and callbacks
  of which the one named \<open>1\<close> raises; a client just connected.
\<close>

definition sample_loads :: "ustr \<Rightarrow> error + pyval" where
  "sample_loads t =
    (if t = lit ''{\"Type\": 2, \"Content\": [66, 105, 110]}''
     then Inr (PDict [(lit ''Type'', PInt 2),
                      (lit ''Content'', PList [PInt 66, PInt 105, PInt 110])])
     else if t = lit ''{\"Type\": 1, \"Content\": \"hi\"}''
     then Inr (PDict [(lit ''Type'', PInt 1), (lit ''Content'', PStr (lit ''hi''))])
     else Inl JSONDecodeError)"

definition never_raises :: "nat \<Rightarrow> pyval \<Rightarrow> bool" where
  "never_raises cb v = False"

definition first_raises :: "nat \<Rightarrow> pyval \<Rightarrow> bool" where
  "first_raises cb v = (cb = 1)"

definition client0 :: "nat client" where
  "client0 = \<lparr>sock = Connected, sent = [], response_queue = [], subscriptions = Map.empty,
                running = True, read_thread = Looping [], console = []\<rparr>"

definition subscribed :: "nat client" where
  "subscribed = client0\<lparr>subscriptions := [lit ''news'' \<mapsto> [1, 2]]\<rparr>"

text \<open>
  The bytes of an ASCII text, and a rendering that agrees with \<open>str\<close> on the integer 42,
  the only value it is applied to.
\<close>

definition ascii :: "string \<Rightarrow> byte list" where
  "ascii cs = map (\<lambda>c. of_nat (of_char c)) cs"

definition render_42 :: "pyval \<Rightarrow> ustr" where
  "render_42 v = lit ''42''"

text \<open>A chunk of two lines: a push notification for \<open>news\<close>, then the response \<open>ERR\<close>.\<close>

definition news_then_err :: "byte list" where
  "news_then_err =
    ascii ''Message news {\"Type\": 1, \"Content\": \"hi\"}'' @ [10] @ ascii ''ERR'' @ [10]"

text \<open>The connected client after \<open>GET k\<close> has been sent: its caller waits.\<close>

definition waiting :: "nat client" where
  "waiting = client0\<lparr>sent := [[71, 69, 84, 32, 107, 10]]\<rparr>"

section \<open>The specification's wording\<close>

text \<open>
  Two notions that follow the specification's words, not the source; the theorems on
  classification and on trimming compare the source with them. A push notification is \<open>Message\<close>, a space, a channel
  token free of whitespace, a space, and a text that \<open>json.loads\<close> accepts. Trimming
  trailing whitespace keeps the leading whitespace.
\<close>

definition spec_push :: "(ustr \<Rightarrow> error + pyval) \<Rightarrow> ustr \<Rightarrow> bool" where
  "spec_push loads line =
    (case py_split space 2 line of
       [m, channel, json_str] \<Rightarrow>
         m = lit ''Message'' \<and> channel \<noteq> [] \<and> list_all (\<lambda>c. \<not> py_isspace c) channel
         \<and> (case loads json_str of Inl e \<Rightarrow> False | Inr v \<Rightarrow> True)
     | _ \<Rightarrow> False)"

definition trim_trailing :: "ustr \<Rightarrow> ustr" where
  "trim_trailing s = rev (dropWhile py_isspace (rev s))"

section \<open>The reader thread, line by line\<close>

lemma handle_line_queue:
  "response_queue (handle_line L R line s) =
     response_queue s @ (if is_response line then [py_strip line] else [])"
  by (simp add: handle_line_def is_response_def split: prod.splits option.splits)

lemma handle_line_fields:
  "sock (handle_line L R line s) = sock s"
  "sent (handle_line L R line s) = sent s"
  "subscriptions (handle_line L R line s) = subscriptions s"
  "running (handle_line L R line s) = running s"
  "read_thread (handle_line L R line s) = read_thread s"
  by (simp_all add: handle_line_def split: prod.splits option.splits)

lemma dispatch_read_thread:
  "dispatch L R line (s\<lparr>read_thread := x\<rparr>) = dispatch L R line s"
  by (simp add: dispatch_def split: list.splits sum.splits option.splits)

lemma handle_line_read_thread:
  "handle_line L R line (s\<lparr>read_thread := x\<rparr>) = (handle_line L R line s)\<lparr>read_thread := x\<rparr>"
  by (simp add: handle_line_def dispatch_read_thread split: prod.splits option.splits)

lemma process_lines_read_thread:
  "process_lines L R b (s\<lparr>read_thread := x\<rparr>) =
     (fst (process_lines L R b s), (snd (process_lines L R b s))\<lparr>read_thread := x\<rparr>)"
proof (induction L R b s rule: process_lines.induct)
  case (1 L R b s)
  show ?case
  proof (cases "nl \<in> set b")
    case True
    let ?line = "takeWhile (\<lambda>c. c \<noteq> nl) b"
    let ?rest = "tl (dropWhile (\<lambda>c. c \<noteq> nl) b)"
    have "process_lines L R b (s\<lparr>read_thread := x\<rparr>) =
        process_lines L R ?rest ((handle_line L R ?line s)\<lparr>read_thread := x\<rparr>)"
      using True by (subst process_lines.simps) (simp add: handle_line_read_thread)
    also have "\<dots> = (fst (process_lines L R ?rest (handle_line L R ?line s)),
        (snd (process_lines L R ?rest (handle_line L R ?line s)))\<lparr>read_thread := x\<rparr>)"
      by (rule 1 [OF True])
    also have "process_lines L R ?rest (handle_line L R ?line s) = process_lines L R b s"
      using True by (subst (2) process_lines.simps) simp
    finally show ?thesis .
  next
    case False
    then show ?thesis by (simp add: process_lines.simps)
  qed
qed

text \<open>A turn from the top of the loop, written out.\<close>

lemma reader_iter_turn:
  "reader_iter L R chunk s =
    (case read_thread s of
       Looping buffer \<Rightarrow>
         if \<not> running s then s\<lparr>read_thread := Exited\<rparr>
         else if sock s \<noteq> Connected
         then s\<lparr>read_thread := Exited, console := console s @ [PrintedReadError OSError]\<rparr>
         else
           (case utf8_decode chunk of
              Inl e \<Rightarrow> s\<lparr>read_thread := Exited, console := console s @ [PrintedReadError e]\<rparr>
            | Inr data \<Rightarrow>
                if data = [] then s\<lparr>read_thread := Exited\<rparr>
                else
                  (case process_lines L R (buffer @ data) s of
                     (buffer', s') \<Rightarrow> s'\<lparr>read_thread := Looping buffer'\<rparr>))
     | Receiving buffer \<Rightarrow> recv_returns L R chunk s
     | _ \<Rightarrow> s)"
  by (cases "read_thread s")
    (simp_all add: reader_iter_def loop_top_def recv_returns_def process_lines_read_thread
      split: sum.splits prod.splits)

lemma takeWhile_until: "x \<notin> set xs \<Longrightarrow> takeWhile (\<lambda>c. c \<noteq> x) (xs @ x # ys) = xs"
  by (induction xs) auto

lemma dropWhile_until: "x \<notin> set xs \<Longrightarrow> dropWhile (\<lambda>c. c \<noteq> x) (xs @ x # ys) = x # ys"
  by (induction xs) auto

lemma process_lines_frame:
  "nl \<notin> set cur \<Longrightarrow>
   process_lines L R (cur @ t) s =
     (snd (frame cur t), fold (handle_line L R) (fst (frame cur t)) s)"
proof (induction t arbitrary: cur s)
  case Nil
  then show ?case by (simp add: process_lines.simps)
next
  case (Cons c cs)
  show ?case
  proof (cases "c = nl")
    case True
    have tw: "takeWhile (\<lambda>c. c \<noteq> nl) (cur @ nl # cs) = cur"
      using Cons.prems by (rule takeWhile_until)
    have dw: "tl (dropWhile (\<lambda>c. c \<noteq> nl) (cur @ nl # cs)) = cs"
      using Cons.prems by (simp add: dropWhile_until)
    have "process_lines L R (cur @ nl # cs) s = process_lines L R cs (handle_line L R cur s)"
      by (subst process_lines.simps) (simp add: tw dw)
    also have "\<dots> = (snd (frame [] cs), fold (handle_line L R) (fst (frame [] cs)) (handle_line L R cur s))"
      using Cons.IH [of "[]" "handle_line L R cur s"] by simp
    finally show ?thesis using True by (simp split: prod.splits)
  next
    case False
    then have "nl \<notin> set (cur @ [c])" using Cons.prems by simp
    from Cons.IH [OF this, of s] False show ?thesis by simp
  qed
qed


lemma frame_append:
  "frame cur (t1 @ t2) =
     (case frame cur t1 of (ls1, r1) \<Rightarrow> case frame r1 t2 of (ls2, r2) \<Rightarrow> (ls1 @ ls2, r2))"
  by (induction t1 arbitrary: cur) (auto split: prod.splits)

lemma frame_rest_nl: "nl \<notin> set cur \<Longrightarrow> nl \<notin> set (snd (frame cur t))"
proof (induction t arbitrary: cur)
  case Nil
  then show ?case by simp
next
  case (Cons c cs)
  show ?case
  proof (cases "c = nl")
    case True
    have "nl \<notin> set (snd (frame [] cs))" by (rule Cons.IH) simp
    with True show ?thesis by (cases "frame [] cs") simp
  next
    case False
    with Cons.prems have "nl \<notin> set (cur @ [c])" by simp
    from Cons.IH [OF this] False show ?thesis by simp
  qed
qed

lemma fold_handle_line_queue:
  "response_queue (fold (handle_line L R) ls s) =
     response_queue s @ map py_strip (filter is_response ls)"
  by (induction ls arbitrary: s) (simp_all add: handle_line_queue)

lemma fold_handle_line_fields:
  "sock (fold (handle_line L R) ls s) = sock s"
  "sent (fold (handle_line L R) ls s) = sent s"
  "subscriptions (fold (handle_line L R) ls s) = subscriptions s"
  "running (fold (handle_line L R) ls s) = running s"
  "read_thread (fold (handle_line L R) ls s) = read_thread s"
  by (induction ls arbitrary: s) (simp_all add: handle_line_fields)

lemma fold_handle_line_read_thread:
  "fold (handle_line L R) ls (s\<lparr>read_thread := x\<rparr>) = (fold (handle_line L R) ls s)\<lparr>read_thread := x\<rparr>"
  by (induction ls arbitrary: s) (simp_all add: handle_line_read_thread)

lemma reader_iter_text:
  assumes "utf8_decode c = Inr t" "t \<noteq> []" "read_thread s = Looping b" "nl \<notin> set b"
    "running s" "sock s = Connected"
  shows "reader_iter L R c s =
    (fold (handle_line L R) (fst (frame b t)) s)\<lparr>read_thread := Looping (snd (frame b t))\<rparr>"
  using assms by (simp add: reader_iter_turn process_lines_frame)

lemma read_responses_text:
  assumes "decode_chunks cs = Some ts" "read_thread s = Looping b" "nl \<notin> set b"
    "running s" "sock s = Connected"
  shows "read_responses L R cs s =
    (fold (handle_line L R) (fst (frame b (concat ts))) s)
      \<lparr>read_thread := Looping (snd (frame b (concat ts)))\<rparr>"
  using assms
proof (induction cs arbitrary: ts b s)
  case Nil
  then show ?case by simp
next
  case (Cons c cs)
  from Cons.prems(1) obtain t ts' where
    t: "utf8_decode c = Inr t" "t \<noteq> []" and ts': "decode_chunks cs = Some ts'" and ts: "ts = t # ts'"
    by (auto split: sum.splits if_splits)
  let ?s1 = "(fold (handle_line L R) (fst (frame b t)) s)\<lparr>read_thread := Looping (snd (frame b t))\<rparr>"
  have it: "reader_iter L R c s = ?s1"
    using t Cons.prems by (simp add: reader_iter_text)
  have "read_responses L R cs ?s1 =
    (fold (handle_line L R) (fst (frame (snd (frame b t)) (concat ts'))) ?s1)
      \<lparr>read_thread := Looping (snd (frame (snd (frame b t)) (concat ts')))\<rparr>"
    using Cons.prems
    by (intro Cons.IH [OF ts']) (simp_all add: frame_rest_nl fold_handle_line_fields)
  then show ?case
    by (simp add: it ts frame_append fold_handle_line_read_thread split: prod.splits)
qed

section \<open>Responses in the order of the commands\<close>

lemma send_command_answered:
  assumes "sock s = Connected" "running s" "read_thread s = Looping []" "response_queue s = []"
    and "utf8_encode (command @ [nl]) = Inr data" and "answers arriving reply"
  shows "\<exists>s'. send_command L R command arriving s = (Returns (py_strip reply), s')
     \<and> sock s' = Connected \<and> running s' \<and> read_thread s' = Looping [] \<and> response_queue s' = []
     \<and> sent s' = sent s @ [data]"
proof -
  from assms(6) obtain ts ls where ts: "decode_chunks arriving = Some ts"
    and fr: "frame [] (concat ts) = (ls, [])" and ls: "filter is_response ls = [reply]"
    by (auto simp: answers_def split: option.splits prod.splits)
  let ?s1 = "s\<lparr>sent := sent s @ [data]\<rparr>"
  have rd: "read_responses L R arriving ?s1 =
      (fold (handle_line L R) ls ?s1)\<lparr>read_thread := Looping []\<rparr>"
    using read_responses_text [OF ts, of ?s1 "[]" L R] assms(1-3) fr by simp
  show ?thesis
    using assms(1-5) ls
    by (simp add: send_command_def sock_send_def queue_get_def rd fold_handle_line_queue
        fold_handle_line_fields)
qed

text \<open>
  C1. A client is connected, its reader looping on an empty buffer, its queue empty.
  Commands are issued one after the other; while the caller waits for the answer to
  a command, whole lines arrive, in any fragments that decode, among them exactly
  one response line, the server's reply to that command (the others are push
  notifications or empty). Then the K-th call returns the reply to the K-th
  command, stripped, and the commands are on the wire in the order of the calls.
\<close>

theorem responses_in_order:
  assumes "sock s = Connected" "running s" "read_thread s = Looping []" "response_queue s = []"
    and "\<forall>x \<in> set xs. encodable (cmd x) \<and> answers (arrives x) (answer x)"
  shows "fst (issue L R (map (\<lambda>x. (cmd x, arrives x)) xs) s) =
           map (\<lambda>x. Returns (py_strip (answer x))) xs
       \<and> map Inr (sent (snd (issue L R (map (\<lambda>x. (cmd x, arrives x)) xs) s))) =
           map Inr (sent s) @ map (\<lambda>x. utf8_encode (cmd x @ [nl])) xs"
  using assms
proof (induction xs arbitrary: s)
  case Nil
  then show ?case by simp
next
  case (Cons x xs)
  from Cons.prems(5) have enc: "encodable (cmd x)" and ans: "answers (arrives x) (answer x)"
    and rest: "\<forall>x \<in> set xs. encodable (cmd x) \<and> answers (arrives x) (answer x)"
    by auto
  from enc obtain data where data: "utf8_encode (cmd x @ [nl]) = Inr data"
    by (auto simp: encodable_def split: sum.splits)
  from send_command_answered [OF Cons.prems(1-4) data ans, of L R]
  obtain s' where s': "send_command L R (cmd x) (arrives x) s = (Returns (py_strip (answer x)), s')"
    "sock s' = Connected" "running s'" "read_thread s' = Looping []" "response_queue s' = []"
    "sent s' = sent s @ [data]"
    by blast
  obtain outs s'' where i: "issue L R (map (\<lambda>x. (cmd x, arrives x)) xs) s' = (outs, s'')"
    by (cases "issue L R (map (\<lambda>x. (cmd x, arrives x)) xs) s'") auto
  from Cons.IH [OF s'(2-5) rest] i
  have "outs = map (\<lambda>x. Returns (py_strip (answer x))) xs"
    and "map Inr (sent s'') = map Inr (sent s') @ map (\<lambda>x. utf8_encode (cmd x @ [nl])) xs"
    by simp_all
  then show ?case
    by (simp add: s'(1,6) data i)
qed

text \<open>
  A session of two commands: \<open>SET k 1\<close>, answered by \<open>OK\<close>, and \<open>GET k\<close>, answered by
  \<open>1\<close> after a push notification and in two fragments.
\<close>

theorem responses_in_order_witness:
  "fst (issue sample_loads never_raises
         [(lit ''SET k 1'', [[79, 75, 10]]),
          (lit ''GET k'', [[77, 101, 115, 115, 97, 103, 101, 32, 120, 10, 32, 49], [13, 10]])]
         client0) =
     [Returns (lit ''OK''), Returns (lit ''1'')]"
proof -
  have a1: "answers [[79, 75, 10]] (lit ''OK'')"
    by (simp add: answers_def utf8_decode_def cons_ok_def nl_def is_response_def
        startswith_def lit_def)
  have a2: "answers [[77, 101, 115, 115, 97, 103, 101, 32, 120, 10, 32, 49], [13, 10]] [32, 49, 13]"
    by (simp add: answers_def utf8_decode_def cons_ok_def nl_def is_response_def
        startswith_def lit_def)
  have e1: "encodable (lit ''SET k 1'')" and e2: "encodable (lit ''GET k'')"
    by (simp_all add: encodable_def encode_point_def nl_def lit_def)
  have s1: "py_strip (lit ''OK'') = lit ''OK''" and s2: "py_strip [32, 49, 13] = lit ''1''"
    by (simp_all add: py_strip_def py_isspace_def lit_def)
  show ?thesis
    using responses_in_order [of client0
        "[\<lparr>cmd = lit ''SET k 1'', arrives = [[79, 75, 10]], answer = lit ''OK''\<rparr>,
          \<lparr>cmd = lit ''GET k'',
           arrives = [[77, 101, 115, 115, 97, 103, 101, 32, 120, 10, 32, 49], [13, 10]],
           answer = [32, 49, 13]\<rparr>]"
        sample_loads never_raises]
      a1 a2 e1 e2
    by (simp add: client0_def s1 s2)
qed

section \<open>Dispatch of push notifications\<close>

lemma split_message:
  assumes "space \<notin> set channel"
  shows "py_split space 2 (lit ''Message '' @ channel @ space # json_str) =
    [lit ''Message'', channel, json_str]"
proof -
  have m: "lit ''Message '' = lit ''Message'' @ [space]" "space \<notin> set (lit ''Message'')"
    by (simp_all add: lit_def space_def)
  have "py_split space (Suc (Suc 0)) ((lit ''Message'' @ space # channel @ space # json_str)) =
    [lit ''Message'', channel, json_str]"
    using assms m(2)
    by (simp add: takeWhile_until dropWhile_until takeWhile_until [of _ _ "[]", simplified]
        del: append_assoc)
  then show ?thesis by (simp add: m(1) numeral_2_eq_2)
qed

lemma startswith_message:
  "startswith (lit ''Message '' @ rest) (lit ''Message'')"
  "startswith (lit ''Message '' @ rest) (lit ''Message '')"
  by (simp_all add: startswith_def lit_def)

lemma py_bytes_bytes: "py_bytes (PBytes bs) = Inr bs"
  by (simp add: py_bytes_def)

lemma convert_again:
  assumes "convert msg_type content = Inr c"
  shows "convert msg_type c = Inr c"
proof (cases "py_is_two msg_type")
  case True
  with assms obtain bs where "py_bytes content = Inr bs" "c = PBytes bs"
    by (cases "py_bytes content") (auto simp: convert_def)
  with True show ?thesis by (simp add: convert_def py_bytes_bytes)
next
  case False
  then show ?thesis by (simp add: convert_def)
qed

lemma call_all_converted:
  "convert msg_type content = Inr c \<Longrightarrow>
   call_all R msg_type cbs content out = call_all R msg_type cbs c out"
  by (cases cbs) (simp_all add: convert_again)

lemma call_all_none_raises:
  "convert msg_type c = Inr c \<Longrightarrow> \<forall>cb \<in> set cbs. \<not> R cb c \<Longrightarrow>
   call_all R msg_type cbs c out = (None, out @ map (\<lambda>cb. Invoked cb c) cbs)"
  by (induction cbs arbitrary: out) simp_all

lemma call_all_one_raises:
  "convert msg_type c = Inr c \<Longrightarrow> \<forall>cb \<in> set before. \<not> R cb c \<Longrightarrow> R cb c \<Longrightarrow>
   call_all R msg_type (before @ cb # after) c out =
     (Some CallbackException, out @ map (\<lambda>cb. Invoked cb c) (before @ [cb]))"
  by (induction before arbitrary: out) simp_all

lemma bytes_of_items_ints:
  "\<forall>n \<in> set ns. 0 \<le> n \<and> n < 256 \<Longrightarrow> bytes_of_items (map PInt ns) = Inr (map of_int ns)"
  by (induction ns) (simp_all add: byte_of_item_def cons_ok_def)


lemma dispatch_reaches_callbacks:
  assumes "space \<notin> set channel"
    and "loads json_str = Inr message"
    and "subscriptions s channel = Some cbs"
    and "py_getitem message (lit ''Content'') = Inr content"
    and "py_getitem message (lit ''Type'') = Inr msg_type"
  shows "dispatch loads raises (lit ''Message '' @ channel @ space # json_str) s =
    call_all raises msg_type cbs content (console s)"
  using assms(2-5) by (simp add: dispatch_def split_message [OF assms(1)])

text \<open>
  C8. A push notification for a channel with registered callbacks, none of which
  raises: the envelope decodes to a dictionary with \<open>Content\<close> and \<open>Type\<close>, and when \<open>Type\<close>
  equals 2 the content is a list of integers between 0 and 255. Then the callbacks are
  called in the order of their registration, all with the same value: the content
  itself, or, when \<open>Type\<close> equals 2, the byte string made of the list. Nothing else
  of the client changes.
\<close>

theorem callbacks_in_registration_order:
  assumes "space \<notin> set channel"
    and "loads json_str = Inr message"
    and "subscriptions s channel = Some cbs"
    and "py_getitem message (lit ''Content'') = Inr content"
    and "py_getitem message (lit ''Type'') = Inr msg_type"
    and "py_is_two msg_type \<longrightarrow> content = PList (map PInt ns) \<and> (\<forall>n \<in> set ns. 0 \<le> n \<and> n < 256)"
    and "delivered = (if py_is_two msg_type then PBytes (map of_int ns) else content)"
    and "\<forall>cb \<in> set cbs. \<not> raises cb delivered"
  shows "handle_line loads raises (lit ''Message '' @ channel @ space # json_str) s =
    s\<lparr>console := console s @ map (\<lambda>cb. Invoked cb delivered) cbs\<rparr>"
proof -
  have conv: "convert msg_type content = Inr delivered"
    using assms(6,7) by (auto simp: convert_def py_bytes_def bytes_of_items_ints)
  have "call_all raises msg_type cbs content (console s) =
      (None, console s @ map (\<lambda>cb. Invoked cb delivered) cbs)"
    using call_all_converted [OF conv, of raises cbs "console s"]
      call_all_none_raises [of msg_type delivered cbs raises "console s"]
      convert_again [OF conv] assms(8)
    by simp
  then have "dispatch loads raises (lit ''Message '' @ channel @ space # json_str) s =
      (None, console s @ map (\<lambda>cb. Invoked cb delivered) cbs)"
    using dispatch_reaches_callbacks [of channel loads json_str message s cbs content msg_type raises]
      assms(1-5)
    by simp
  then show ?thesis
    using startswith_message(1) [of "channel @ space # json_str"]
    by (simp add: handle_line_def lit_def)
qed

lemma binary_line:
  "lit ''Message news {\"Type\": 2, \"Content\": [66, 105, 110]}'' =
   lit ''Message '' @ lit ''news'' @ space # lit ''{\"Type\": 2, \"Content\": [66, 105, 110]}''"
  by (simp add: lit_def space_def)

text \<open>A binary envelope for the channel \<open>news\<close>, which has the callbacks 1 and 2.\<close>

theorem callbacks_in_registration_order_witness:
  "handle_line sample_loads never_raises
     (lit ''Message news {\"Type\": 2, \"Content\": [66, 105, 110]}'') subscribed =
   subscribed\<lparr>console := [Invoked 1 (PBytes [66, 105, 110]), Invoked 2 (PBytes [66, 105, 110])]\<rparr>"
proof -
  have 1: "space \<notin> set (lit ''news'')" by (simp add: lit_def space_def)
  have 2: "sample_loads (lit ''{\"Type\": 2, \"Content\": [66, 105, 110]}'') =
      Inr (PDict [(lit ''Type'', PInt 2), (lit ''Content'', PList [PInt 66, PInt 105, PInt 110])])"
    by (simp add: sample_loads_def)
  have 3: "subscriptions subscribed (lit ''news'') = Some [1, 2]"
    by (simp add: subscribed_def)
  have 4: "py_getitem (PDict [(lit ''Type'', PInt 2), (lit ''Content'', PList [PInt 66, PInt 105, PInt 110])])
      (lit ''Content'') = Inr (PList (map PInt [66, 105, 110]))"
    and 5: "py_getitem (PDict [(lit ''Type'', PInt 2), (lit ''Content'', PList [PInt 66, PInt 105, PInt 110])])
      (lit ''Type'') = Inr (PInt 2)"
    by (simp_all add: py_getitem_def lit_def)
  have 6: "py_is_two (PInt 2)" by (simp add: py_is_two_def)
  have 8: "\<forall>cb \<in> set [1, 2]. \<not> never_raises cb (PBytes (map of_int [66, 105, 110]))"
    by (simp add: never_raises_def)
  show ?thesis
    using callbacks_in_registration_order [of "lit ''news''" sample_loads
        "lit ''{\"Type\": 2, \"Content\": [66, 105, 110]}''"
        "PDict [(lit ''Type'', PInt 2), (lit ''Content'', PList [PInt 66, PInt 105, PInt 110])]"
        subscribed "[1, 2]" "PList (map PInt [66, 105, 110])" "PInt 2" "[66, 105, 110]"
        "PBytes (map of_int [66, 105, 110])" never_raises] 1 2 3 4 5 6 8
    by (simp add: binary_line subscribed_def client0_def)
qed


lemma process_lines_step:
  "nl \<notin> set line \<Longrightarrow>
   process_lines L R (line @ nl # rest) s = process_lines L R rest (handle_line L R line s)"
  by (subst process_lines.simps) (simp add: takeWhile_until dropWhile_until)

lemma message_line_nl:
  "nl \<notin> set channel \<Longrightarrow> nl \<notin> set json_str \<Longrightarrow>
   nl \<notin> set (lit ''Message '' @ channel @ space # json_str)"
  by (simp add: lit_def nl_def space_def)

text \<open>
  C5, as the code has it. When a callback raises, the callbacks registered before it
  have been called, it has been called, the error is printed, and the callbacks
  registered after it are not called for this message. The loop goes on with the
  rest of the buffer; queue, subscriptions and thread are untouched.
\<close>

theorem raising_callback_ends_dispatch:
  assumes "space \<notin> set channel" "nl \<notin> set channel" "nl \<notin> set json_str"
    and "loads json_str = Inr message"
    and "subscriptions s channel = Some (before @ cb # after)"
    and "py_getitem message (lit ''Content'') = Inr content"
    and "py_getitem message (lit ''Type'') = Inr msg_type"
    and "convert msg_type content = Inr delivered"
    and "\<forall>c \<in> set before. \<not> raises c delivered" and "raises cb delivered"
  shows "process_lines loads raises
           ((lit ''Message '' @ channel @ space # json_str) @ nl # rest) s =
         process_lines loads raises rest
           (s\<lparr>console := console s @ map (\<lambda>c. Invoked c delivered) (before @ [cb])
                            @ [PrintedMessageError CallbackException]\<rparr>)"
proof -
  let ?line = "lit ''Message '' @ channel @ space # json_str"
  have "call_all raises msg_type (before @ cb # after) content (console s) =
      (Some CallbackException, console s @ map (\<lambda>c. Invoked c delivered) (before @ [cb]))"
    using call_all_converted [OF assms(8), of raises "before @ cb # after" "console s"]
      call_all_one_raises [of msg_type delivered before raises cb after "console s"]
      convert_again [OF assms(8)] assms(9,10)
    by simp
  then have "dispatch loads raises ?line s =
      (Some CallbackException, console s @ map (\<lambda>c. Invoked c delivered) (before @ [cb]))"
    using dispatch_reaches_callbacks [of channel loads json_str message s "before @ cb # after"
        content msg_type raises] assms(1,4-7)
    by simp
  then have hl: "handle_line loads raises ?line s =
      s\<lparr>console := console s @ map (\<lambda>c. Invoked c delivered) (before @ [cb])
                       @ [PrintedMessageError CallbackException]\<rparr>"
    using startswith_message(1) [of "channel @ space # json_str"]
    by (simp add: handle_line_def lit_def)
  have step: "process_lines loads raises (?line @ nl # rest) s =
      process_lines loads raises rest (handle_line loads raises ?line s)"
    by (rule process_lines_step [OF message_line_nl [OF assms(2,3)]])
  show ?thesis
    by (simp only: step hl)
qed

lemma text_line:
  "lit ''Message news {\"Type\": 1, \"Content\": \"hi\"}'' =
   lit ''Message '' @ lit ''news'' @ space # lit ''{\"Type\": 1, \"Content\": \"hi\"}''"
  by (simp add: lit_def space_def)

lemma sample_text_envelope:
  "sample_loads (lit ''{\"Type\": 1, \"Content\": \"hi\"}'') =
     Inr (PDict [(lit ''Type'', PInt 1), (lit ''Content'', PStr (lit ''hi''))])"
  "py_getitem (PDict [(lit ''Type'', PInt 1), (lit ''Content'', PStr (lit ''hi''))]) (lit ''Content'')
     = Inr (PStr (lit ''hi''))"
  "py_getitem (PDict [(lit ''Type'', PInt 1), (lit ''Content'', PStr (lit ''hi''))]) (lit ''Type'')
     = Inr (PInt 1)"
  "convert (PInt 1) (PStr (lit ''hi'')) = Inr (PStr (lit ''hi''))"
  by (simp_all add: sample_loads_def py_getitem_def convert_def py_is_two_def lit_def)

text \<open>
  The channel \<open>news\<close> has the callbacks 1 and 2, and 1 raises. A text envelope is
  followed by the response \<open>OK\<close>, which is delivered.
\<close>

theorem raising_callback_ends_dispatch_witness:
  "process_lines sample_loads first_raises
     (lit ''Message news {\"Type\": 1, \"Content\": \"hi\"}'' @ nl # lit ''OK'' @ [nl]) subscribed =
   ([], subscribed\<lparr>console := [Invoked 1 (PStr (lit ''hi'')), PrintedMessageError CallbackException],
                   response_queue := [lit ''OK'']\<rparr>)"
proof -
  have 1: "space \<notin> set (lit ''news'')" "nl \<notin> set (lit ''news'')"
    "nl \<notin> set (lit ''{\"Type\": 1, \"Content\": \"hi\"}'')"
    by (simp_all add: lit_def space_def nl_def)
  have 2: "subscriptions subscribed (lit ''news'') = Some ([] @ 1 # [2])"
    by (simp add: subscribed_def)
  have 3: "\<forall>c \<in> set []. \<not> first_raises c (PStr (lit ''hi''))" "first_raises 1 (PStr (lit ''hi''))"
    by (simp_all add: first_raises_def)
  have 4: "process_lines sample_loads first_raises (lit ''OK'' @ [nl]) s =
      ([], s\<lparr>response_queue := response_queue s @ [lit ''OK'']\<rparr>)" for s :: "nat client"
    using process_lines_frame [of "[]" sample_loads first_raises "lit ''OK'' @ [nl]" s]
    by (simp add: lit_def nl_def handle_line_def startswith_def py_strip_def py_isspace_def)
  show ?thesis
    using raising_callback_ends_dispatch [of "lit ''news''" "lit ''{\"Type\": 1, \"Content\": \"hi\"}''"
        sample_loads "PDict [(lit ''Type'', PInt 1), (lit ''Content'', PStr (lit ''hi''))]"
        subscribed "[]" 1 "[2]" "PStr (lit ''hi'')" "PInt 1" "PStr (lit ''hi'')" first_raises
        "lit ''OK'' @ [nl]"] 1 2 3 sample_text_envelope
    by (simp add: text_line 4 subscribed_def client0_def)
qed

text \<open>
  Against C5 as stated: callback 2 is registered for \<open>news\<close> after callback 1, callback 1
  raises, and callback 2 is not called.
\<close>

theorem second_callback_not_invoked:
  "console (handle_line sample_loads first_raises
      (lit ''Message news {\"Type\": 1, \"Content\": \"hi\"}'') subscribed) =
     [Invoked 1 (PStr (lit ''hi'')), PrintedMessageError CallbackException]
   \<and> subscriptions subscribed (lit ''news'') = Some [1, 2]
   \<and> Invoked 2 (PStr (lit ''hi'')) \<notin> set (console (handle_line sample_loads first_raises
      (lit ''Message news {\"Type\": 1, \"Content\": \"hi\"}'') subscribed))"
proof -
  have "dispatch sample_loads first_raises
      (lit ''Message news {\"Type\": 1, \"Content\": \"hi\"}'') subscribed =
      (Some CallbackException, [Invoked 1 (PStr (lit ''hi''))])"
    using dispatch_reaches_callbacks [of "lit ''news''" sample_loads
        "lit ''{\"Type\": 1, \"Content\": \"hi\"}''"
        "PDict [(lit ''Type'', PInt 1), (lit ''Content'', PStr (lit ''hi''))]"
        subscribed "[1, 2]" "PStr (lit ''hi'')" "PInt 1" first_raises] sample_text_envelope
    by (simp add: text_line subscribed_def client0_def first_raises_def)
      (simp add: lit_def space_def)
  then show ?thesis
    by (simp add: handle_line_def subscribed_def client0_def)
      (simp add: startswith_def lit_def)
qed

section \<open>Classification and delivery of lines\<close>

text \<open>
  The guard of the push path, \<open>line.startswith('Message')\<close>: a line that is not empty
  stays off the response queue exactly when it begins with the seven letters, with
  or without a space after them.
\<close>

lemma guard_is_prefix_message:
  assumes "line \<noteq> []"
  shows "(response_queue (handle_line L R line s) = response_queue s) =
    startswith line (lit ''Message'')"
proof (cases "startswith line (lit ''Message'')")
  case True
  obtain e out where "dispatch L R line s = (e, out)"
    by (cases "dispatch L R line s") auto
  with True assms show ?thesis
    by (cases e) (simp_all add: handle_line_def)
next
  case False
  with assms show ?thesis
    by (simp add: handle_line_def)
qed

lemma bad_line_split:
  "py_split space 2 (lit ''Message chan {bad json'') =
     [lit ''Message'', lit ''chan'', lit ''{bad json'']"
  by (simp add: lit_def space_def numeral_2_eq_2)

text \<open>
  A push line whose envelope does not decode is printed as an error and dropped,
  as the specification has it.
\<close>

lemma bad_line_handled:
  "handle_line sample_loads never_raises (lit ''Message chan {bad json'') client0 =
     client0\<lparr>console := [PrintedMessageError JSONDecodeError]\<rparr>"
proof -
  have "sample_loads (lit ''{bad json'') = Inl JSONDecodeError"
    by (simp add: sample_loads_def lit_def)
  then have "dispatch sample_loads never_raises (lit ''Message chan {bad json'') client0 =
      (Some JSONDecodeError, [])"
    by (simp add: dispatch_def bad_line_split client0_def)
  moreover have "startswith (lit ''Message chan {bad json'') (lit ''Message'')"
    by (simp add: startswith_def lit_def)
  moreover have "lit ''Message chan {bad json'' \<noteq> []"
    by (simp add: lit_def)
  ultimately show ?thesis
    by (simp add: handle_line_def client0_def)
qed

lemma messages_3_split:
  "py_split space 2 (lit ''Messages 3'') = [lit ''Messages'', lit ''3'']"
  by (simp add: lit_def space_def numeral_2_eq_2)

lemma messagexyz_split:
  "py_split space 2 (lit ''Messagexyz news {\"Type\": 1, \"Content\": \"hi\"}'') =
     [lit ''Messagexyz'', lit ''news'', lit ''{\"Type\": 1, \"Content\": \"hi\"}'']"
  by (simp add: lit_def space_def numeral_2_eq_2)

text \<open>
  C3, at two failing inputs. Neither line begins with \<open>Message\<close> and a space, so by
  the claim neither is a push notification and both go to the response
  correlator. The guard of the code has no space: \<open>Messages 3\<close>, a response, takes
  the push path, fails to split in three, is printed as an error and never reaches
  the response queue; \<open>Messagexyz news\<close> with an envelope is dispatched to the
  callbacks of \<open>news\<close>.
\<close>

theorem message_guard_without_space:
  "\<not> startswith (lit ''Messages 3'') (lit ''Message '')
   \<and> \<not> spec_push sample_loads (lit ''Messages 3'')
   \<and> handle_line sample_loads never_raises (lit ''Messages 3'') client0 =
       client0\<lparr>console := [PrintedMessageError ValueError]\<rparr>
   \<and> \<not> startswith (lit ''Messagexyz news {\"Type\": 1, \"Content\": \"hi\"}'') (lit ''Message '')
   \<and> \<not> spec_push sample_loads (lit ''Messagexyz news {\"Type\": 1, \"Content\": \"hi\"}'')
   \<and> handle_line sample_loads never_raises
         (lit ''Messagexyz news {\"Type\": 1, \"Content\": \"hi\"}'') subscribed =
       subscribed\<lparr>console := [Invoked 1 (PStr (lit ''hi'')), Invoked 2 (PStr (lit ''hi''))]\<rparr>"
proof -
  have 1: "\<not> startswith (lit ''Messages 3'') (lit ''Message '')"
    "\<not> startswith (lit ''Messagexyz news {\"Type\": 1, \"Content\": \"hi\"}'') (lit ''Message '')"
    by (simp_all add: startswith_def lit_def)
  have 2: "\<not> spec_push sample_loads (lit ''Messages 3'')"
    by (simp add: spec_push_def messages_3_split)
  have 3: "\<not> spec_push sample_loads (lit ''Messagexyz news {\"Type\": 1, \"Content\": \"hi\"}'')"
    by (simp add: spec_push_def messagexyz_split) (simp add: lit_def)
  have g: "lit ''Messages 3'' \<noteq> []" "startswith (lit ''Messages 3'') (lit ''Message'')"
    "lit ''Messagexyz news {\"Type\": 1, \"Content\": \"hi\"}'' \<noteq> []"
    "startswith (lit ''Messagexyz news {\"Type\": 1, \"Content\": \"hi\"}'') (lit ''Message'')"
    by (simp_all add: startswith_def lit_def)
  have "dispatch sample_loads never_raises (lit ''Messages 3'') client0 = (Some ValueError, [])"
    by (simp add: dispatch_def messages_3_split client0_def)
  then have 4: "handle_line sample_loads never_raises (lit ''Messages 3'') client0 =
      client0\<lparr>console := [PrintedMessageError ValueError]\<rparr>"
    using g(1,2) by (simp add: handle_line_def)
  have "call_all never_raises (PInt 1) [1, 2] (PStr (lit ''hi'')) [] =
      (None, [Invoked 1 (PStr (lit ''hi'')), Invoked 2 (PStr (lit ''hi''))])"
    by (simp add: sample_text_envelope(4) never_raises_def)
  then have "dispatch sample_loads never_raises
      (lit ''Messagexyz news {\"Type\": 1, \"Content\": \"hi\"}'') subscribed =
      (None, [Invoked 1 (PStr (lit ''hi'')), Invoked 2 (PStr (lit ''hi''))])"
    by (simp add: dispatch_def messagexyz_split sample_text_envelope subscribed_def client0_def)
  then have 5: "handle_line sample_loads never_raises
      (lit ''Messagexyz news {\"Type\": 1, \"Content\": \"hi\"}'') subscribed =
      subscribed\<lparr>console := [Invoked 1 (PStr (lit ''hi'')), Invoked 2 (PStr (lit ''hi''))]\<rparr>"
    using g(3,4) by (simp add: handle_line_def)
  from 1 2 3 4 5 show ?thesis by simp
qed

lemma rev_takeWhile_split:
  "xs = rev (dropWhile P (rev xs)) @ rev (takeWhile P (rev xs))"
proof -
  have "rev (takeWhile P (rev xs) @ dropWhile P (rev xs)) = rev (rev xs)"
    by (simp only: takeWhile_dropWhile_id)
  then have "rev (dropWhile P (rev xs)) @ rev (takeWhile P (rev xs)) = xs"
    by (simp only: rev_append rev_rev_ident)
  then show ?thesis by (rule sym)
qed

lemma py_strip_split:
  "dropWhile py_isspace line =
     py_strip line @ rev (takeWhile py_isspace (rev (dropWhile py_isspace line)))"
  unfolding py_strip_def by (rule rev_takeWhile_split)

lemma py_strip_parts:
  "\<exists>pre post. line = pre @ py_strip line @ post
     \<and> list_all py_isspace pre \<and> list_all py_isspace post"
proof -
  let ?pre = "takeWhile py_isspace line"
  let ?post = "rev (takeWhile py_isspace (rev (dropWhile py_isspace line)))"
  have "line = ?pre @ dropWhile py_isspace line"
    by simp
  then have "line = ?pre @ py_strip line @ ?post"
    using py_strip_split [of line] by simp
  moreover have "list_all py_isspace ?pre"
    by (simp add: list_all_iff) (meson set_takeWhileD)
  moreover have "list_all py_isspace ?post"
    by (simp add: list_all_iff) (meson set_takeWhileD)
  ultimately show ?thesis by blast
qed

lemma py_strip_ends:
  assumes "py_strip line \<noteq> []"
  shows "\<not> py_isspace (hd (py_strip line)) \<and> \<not> py_isspace (last (py_strip line))"
proof -
  let ?d = "dropWhile py_isspace line"
  let ?e = "dropWhile py_isspace (rev ?d)"
  from assms have e: "?e \<noteq> []" by (simp add: py_strip_def)
  have d: "?d \<noteq> []"
  proof
    assume "?d = []"
    then have "?e = []" by (simp only: rev.simps dropWhile.simps)
    with e show False by contradiction
  qed
  have "last (py_strip line) = hd ?e"
    using e by (simp add: py_strip_def last_rev)
  moreover have "\<not> py_isspace (hd ?e)"
    using e by (rule hd_dropWhile)
  moreover have "hd (py_strip line) = hd ?d"
  proof -
    have "hd ?d = hd (py_strip line @ rev (takeWhile py_isspace (rev ?d)))"
      using py_strip_split [of line] by simp
    with assms show ?thesis by simp
  qed
  moreover have "\<not> py_isspace (hd ?d)"
    using d by (rule hd_dropWhile)
  ultimately show ?thesis by simp
qed

text \<open>
  C7, as the code has it. An empty line is dropped: the loop goes on with the client
  as it was. A line that is not empty and does not begin with \<open>Message\<close> is put on the
  response queue with the whitespace removed at both ends: the line is whitespace,
  the delivered text, whitespace, and the delivered text neither begins nor ends
  with whitespace.
\<close>

theorem empty_dropped_others_stripped:
  "process_lines L R (nl # rest) s = process_lines L R rest s
   \<and> (line \<noteq> [] \<and> \<not> startswith line (lit ''Message'') \<and> nl \<notin> set line \<longrightarrow>
        process_lines L R (line @ nl # rest) s =
        process_lines L R rest (s\<lparr>response_queue := response_queue s @ [py_strip line]\<rparr>))
   \<and> (\<exists>pre post. line = pre @ py_strip line @ post
        \<and> list_all py_isspace pre \<and> list_all py_isspace post)
   \<and> (py_strip line \<noteq> [] \<longrightarrow>
        \<not> py_isspace (hd (py_strip line)) \<and> \<not> py_isspace (last (py_strip line)))"
proof (intro conjI impI)
  show "process_lines L R (nl # rest) s = process_lines L R rest s"
    using process_lines_step [of "[]" L R rest s] by (simp add: handle_line_def)
next
  assume a: "line \<noteq> [] \<and> \<not> startswith line (lit ''Message'') \<and> nl \<notin> set line"
  then have "handle_line L R line s = s\<lparr>response_queue := response_queue s @ [py_strip line]\<rparr>"
    by (simp add: handle_line_def)
  with a show "process_lines L R (line @ nl # rest) s =
      process_lines L R rest (s\<lparr>response_queue := response_queue s @ [py_strip line]\<rparr>)"
    by (simp add: process_lines_step)
next
  show "\<exists>pre post. line = pre @ py_strip line @ post
      \<and> list_all py_isspace pre \<and> list_all py_isspace post"
    by (rule py_strip_parts)
next
  assume "py_strip line \<noteq> []"
  then show "\<not> py_isspace (hd (py_strip line))" "\<not> py_isspace (last (py_strip line))"
    using py_strip_ends by blast+
qed

text \<open>An empty line, then \<open>OK\<close> between spaces and before a carriage return.\<close>

theorem empty_dropped_others_stripped_witness:
  "process_lines sample_loads never_raises (nl # lit ''  OK '' @ [13, nl]) client0 =
     ([], client0\<lparr>response_queue := [lit ''OK'']\<rparr>)"
proof -
  have 1: "lit ''  OK '' @ [13] \<noteq> []" "\<not> startswith (lit ''  OK '' @ [13]) (lit ''Message'')"
    "nl \<notin> set (lit ''  OK '' @ [13])"
    by (simp_all add: startswith_def lit_def nl_def)
  have 2: "py_strip (lit ''  OK '' @ [13]) = lit ''OK''"
    by (simp add: py_strip_def py_isspace_def lit_def)
  have 3: "process_lines sample_loads never_raises [] s = ([], s)" for s :: "nat client"
    by (subst process_lines.simps) simp
  show ?thesis
    using empty_dropped_others_stripped [of sample_loads never_raises
        "lit ''  OK '' @ [13, nl]" client0 "lit ''  OK '' @ [13]"]
      empty_dropped_others_stripped [of sample_loads never_raises
        "[]" client0 "lit ''  OK '' @ [13]"] 1
    by (simp add: 2 3 client0_def)
qed

text \<open>
  Against C7 as stated: the line \<open>OK\<close> after a space is delivered without the space,
  while trimming the trailing whitespace alone would keep it.
\<close>

theorem leading_whitespace_stripped:
  "response_queue (handle_line sample_loads never_raises (lit '' OK'') client0) = [lit ''OK'']
   \<and> trim_trailing (lit '' OK'') = lit '' OK''
   \<and> response_queue (handle_line sample_loads never_raises (lit '' OK'') client0)
       \<noteq> [trim_trailing (lit '' OK'')]"
  by (simp add: handle_line_def startswith_def py_strip_def trim_trailing_def py_isspace_def
      lit_def client0_def)

section \<open>What the reader leaves alone; the calling thread\<close>

lemma handle_line_changes:
  "\<exists>out q. handle_line L R line s = s\<lparr>console := out, response_queue := q\<rparr>"
proof -
  consider (empty) "line = []"
    | (push) "line \<noteq> []" "startswith line (lit ''Message'')"
    | (response) "line \<noteq> []" "\<not> startswith line (lit ''Message'')"
    by blast
  then show ?thesis
  proof cases
    case empty
    then have "handle_line L R line s =
        s\<lparr>console := console s, response_queue := response_queue s\<rparr>"
      by (simp add: handle_line_def)
    then show ?thesis by blast
  next
    case push
    obtain e out where d: "dispatch L R line s = (e, out)"
      by (cases "dispatch L R line s") auto
    with push have "handle_line L R line s =
        s\<lparr>console := (case e of None \<Rightarrow> out | Some x \<Rightarrow> out @ [PrintedMessageError x]),
           response_queue := response_queue s\<rparr>"
      by (cases e) (simp_all add: handle_line_def)
    then show ?thesis by blast
  next
    case response
    then have "handle_line L R line s =
        s\<lparr>console := console s, response_queue := response_queue s @ [py_strip line]\<rparr>"
      by (simp add: handle_line_def)
    then show ?thesis by blast
  qed
qed

lemma process_lines_changes:
  "\<exists>out q. snd (process_lines L R b s) = s\<lparr>console := out, response_queue := q\<rparr>"
proof (induction L R b s rule: process_lines.induct)
  case (1 L R b s)
  show ?case
  proof (cases "nl \<in> set b")
    case True
    let ?line = "takeWhile (\<lambda>c. c \<noteq> nl) b"
    obtain out q where h: "handle_line L R ?line s = s\<lparr>console := out, response_queue := q\<rparr>"
      using handle_line_changes by blast
    from 1 [OF True] obtain out' q' where
      "snd (process_lines L R (tl (dropWhile (\<lambda>c. c \<noteq> nl) b)) (handle_line L R ?line s)) =
        (handle_line L R ?line s)\<lparr>console := out', response_queue := q'\<rparr>"
      by blast
    then have "snd (process_lines L R b s) = s\<lparr>console := out', response_queue := q'\<rparr>"
      using True by (subst process_lines.simps) (simp add: h)
    then show ?thesis by blast
  next
    case False
    have "s = s\<lparr>console := console s, response_queue := response_queue s\<rparr>" by simp
    moreover have "snd (process_lines L R b s) = s"
      using False by (subst process_lines.simps) simp
    ultimately show ?thesis by metis
  qed
qed

lemma process_lines_fields:
  "sock (snd (process_lines L R b s)) = sock s"
  "sent (snd (process_lines L R b s)) = sent s"
  "subscriptions (snd (process_lines L R b s)) = subscriptions s"
  "running (snd (process_lines L R b s)) = running s"
proof -
  obtain out q where "snd (process_lines L R b s) = s\<lparr>console := out, response_queue := q\<rparr>"
    using process_lines_changes by blast
  then show "sock (snd (process_lines L R b s)) = sock s"
    "sent (snd (process_lines L R b s)) = sent s"
    "subscriptions (snd (process_lines L R b s)) = subscriptions s"
    "running (snd (process_lines L R b s)) = running s"
    by simp_all
qed

lemma loop_top_fields:
  "sock (loop_top s) = sock s"
  "sent (loop_top s) = sent s"
  "subscriptions (loop_top s) = subscriptions s"
  "running (loop_top s) = running s"
  "response_queue (loop_top s) = response_queue s"
  by (simp_all add: loop_top_def split: thread.splits)

lemma recv_returns_fields:
  "sock (recv_returns L R c s) = sock s"
  "sent (recv_returns L R c s) = sent s"
  "subscriptions (recv_returns L R c s) = subscriptions s"
  "running (recv_returns L R c s) = running s"
proof -
  have p: "sock (snd p) = sock s \<Longrightarrow> sent (snd p) = sent s \<Longrightarrow>
      subscriptions (snd p) = subscriptions s \<Longrightarrow> running (snd p) = running s \<Longrightarrow>
      sock (case p of (b', s') \<Rightarrow> s'\<lparr>read_thread := Looping b'\<rparr>) = sock s
      \<and> sent (case p of (b', s') \<Rightarrow> s'\<lparr>read_thread := Looping b'\<rparr>) = sent s
      \<and> subscriptions (case p of (b', s') \<Rightarrow> s'\<lparr>read_thread := Looping b'\<rparr>) = subscriptions s
      \<and> running (case p of (b', s') \<Rightarrow> s'\<lparr>read_thread := Looping b'\<rparr>) = running s"
    for p :: "ustr \<times> 'a client"
    by (cases p) simp
  show "sock (recv_returns L R c s) = sock s"
    "sent (recv_returns L R c s) = sent s"
    "subscriptions (recv_returns L R c s) = subscriptions s"
    "running (recv_returns L R c s) = running s"
    using p [OF process_lines_fields]
    by (simp_all add: recv_returns_def split: thread.splits sum.splits)
qed

lemma reader_iter_fields:
  "sock (reader_iter L R c s) = sock s"
  "sent (reader_iter L R c s) = sent s"
  "subscriptions (reader_iter L R c s) = subscriptions s"
  "running (reader_iter L R c s) = running s"
  by (simp_all add: reader_iter_def recv_returns_fields loop_top_fields)

lemma read_responses_fields:
  "sock (read_responses L R cs s) = sock s"
  "sent (read_responses L R cs s) = sent s"
  "subscriptions (read_responses L R cs s) = subscriptions s"
  "running (read_responses L R cs s) = running s"
  by (induction cs arbitrary: s) (simp_all add: reader_iter_fields)

text \<open>
  Once \<open>running\<close> is false, a reader that is not inside \<open>recv\<close> starts no turn, and a
  reader inside \<open>recv\<close> ends the turn in progress and starts no other.
\<close>

lemma recv_returns_not_receiving:
  "read_thread (recv_returns L R c s) \<noteq> Receiving b"
  by (simp add: recv_returns_def split: thread.splits sum.splits prod.splits)

lemma reader_iter_stopped:
  assumes "\<not> running s" and "\<forall>b. read_thread s \<noteq> Receiving b"
  shows "response_queue (reader_iter L R c s) = response_queue s"
    and "read_thread (reader_iter L R c s) \<noteq> Receiving b'"
  using assms
  by (simp_all add: reader_iter_def loop_top_def recv_returns_def split: thread.splits)

lemma read_responses_stopped:
  "\<not> running s \<Longrightarrow> \<forall>b. read_thread s \<noteq> Receiving b \<Longrightarrow>
   response_queue (read_responses L R cs s) = response_queue s"
proof (induction cs arbitrary: s)
  case Nil
  then show ?case by simp
next
  case (Cons c cs)
  have "response_queue (read_responses L R cs (reader_iter L R c s)) =
      response_queue (reader_iter L R c s)"
    using Cons.prems reader_iter_stopped(2) [of s L R c]
    by (intro Cons.IH) (simp_all add: reader_iter_fields)
  then show ?case
    using Cons.prems by (simp add: reader_iter_stopped(1))
qed

lemma read_responses_in_progress:
  assumes "\<not> running s" and "read_thread s = Receiving b"
  shows "response_queue (read_responses L R (c # cs) s) = response_queue (recv_returns L R c s)"
proof -
  have "reader_iter L R c s = recv_returns L R c s"
    using assms(2) by (simp add: reader_iter_def loop_top_def)
  moreover have "response_queue (read_responses L R cs (recv_returns L R c s)) =
      response_queue (recv_returns L R c s)"
    using assms(1) by (intro read_responses_stopped)
      (simp_all add: recv_returns_fields recv_returns_not_receiving)
  ultimately show ?thesis by simp
qed


lemma queue_get_fields:
  "sock (snd (queue_get s)) = sock s"
  "sent (snd (queue_get s)) = sent s"
  "subscriptions (snd (queue_get s)) = subscriptions s"
  by (simp_all add: queue_get_def split: list.splits)

lemma send_command_fields:
  "subscriptions (snd (send_command L R command arriving s)) = subscriptions s"
  "sock (snd (send_command L R command arriving s)) = sock s"
  by (simp_all add: send_command_def sock_send_def queue_get_fields read_responses_fields
      split: sum.splits)

lemma send_command_connected:
  assumes "sock s = Connected" and "utf8_encode (command @ [nl]) = Inr data"
  shows "send_command L R command arriving s =
    queue_get (read_responses L R arriving (s\<lparr>sent := sent s @ [data]\<rparr>))"
  using assms by (simp add: send_command_def sock_send_def)

text \<open>
  C9. Let \<open>s1\<close> be the client with the callback appended to the channel's list, the
  list being created if the channel had none. Whatever \<open>subscribe\<close> does, the
  subscriptions are those of \<open>s1\<close> when it is over. When the command cannot be sent,
  the socket not being connected or the line not encodable, \<open>subscribe\<close> raises and
  leaves \<open>s1\<close>: the callback is registered although nothing was sent. Otherwise
  \<open>SUBSCRIBE\<close> and the channel are sent from \<open>s1\<close>, what arrives during the wait is
  handled with the callback registered already, and the call waits, or returns
  whether the response is \<open>OK\<close>; in each case the registration stays.
\<close>

theorem subscribe_registers_before_sending:
  assumes "s1 = s\<lparr>subscriptions := (subscriptions s)
      (channel \<mapsto> (case subscriptions s channel of None \<Rightarrow> [] | Some cbs \<Rightarrow> cbs) @ [cb])\<rparr>"
  shows "subscriptions (snd (subscribe L R channel cb arriving s)) = subscriptions s1
    \<and> (sock s \<noteq> Connected \<or> \<not> encodable (lit ''SUBSCRIBE '' @ channel) \<longrightarrow>
         (\<exists>e. subscribe L R channel cb arriving s = (Raised e, s1)))
    \<and> (sock s = Connected \<and> utf8_encode (lit ''SUBSCRIBE '' @ channel @ [nl]) = Inr data \<longrightarrow>
         subscribe L R channel cb arriving s =
           (case response_queue (read_responses L R arriving (s1\<lparr>sent := sent s @ [data]\<rparr>)) of
              [] \<Rightarrow> (Blocks, read_responses L R arriving (s1\<lparr>sent := sent s @ [data]\<rparr>))
            | r # q \<Rightarrow>
                (Returns (r = lit ''OK''),
                 (read_responses L R arriving (s1\<lparr>sent := sent s @ [data]\<rparr>))
                   \<lparr>response_queue := q\<rparr>)))"
proof (intro conjI impI)
  let ?cmd = "lit ''SUBSCRIBE '' @ channel"
  obtain out s' where sc: "send_command L R ?cmd arriving s1 = (out, s')"
    by (cases "send_command L R ?cmd arriving s1") auto
  have sub: "subscribe L R channel cb arriving s =
      (map_outcome (\<lambda>response. response = lit ''OK'') out, s')"
    using assms sc by (simp add: subscribe_def Let_def)
  have "subscriptions (snd (send_command L R ?cmd arriving s1)) = subscriptions s1"
    by (rule send_command_fields(1))
  then show "subscriptions (snd (subscribe L R channel cb arriving s)) = subscriptions s1"
    by (simp add: sub sc)
  have s1: "sock s1 = sock s" "sent s1 = sent s"
    using assms by simp_all
  {
    assume a: "sock s \<noteq> Connected \<or> \<not> encodable ?cmd"
    have "\<exists>e. send_command L R ?cmd arriving s1 = (Raised e, s1)"
    proof (cases "utf8_encode (?cmd @ [nl])")
      case (Inl e)
      then show ?thesis by (simp add: send_command_def)
    next
      case (Inr bytes)
      with a have "sock s1 \<noteq> Connected"
        by (simp add: encodable_def s1)
      with Inr show ?thesis by (simp add: send_command_def sock_send_def)
    qed
    then obtain e where "out = Raised e" "s' = s1"
      using sc by auto
    then have "subscribe L R channel cb arriving s = (Raised e, s1)"
      by (simp add: sub map_outcome_def)
    then show "\<exists>e. subscribe L R channel cb arriving s = (Raised e, s1)"
      by blast
  }
  {
    assume a: "sock s = Connected \<and> utf8_encode (lit ''SUBSCRIBE '' @ channel @ [nl]) = Inr data"
    let ?S = "read_responses L R arriving (s1\<lparr>sent := sent s @ [data]\<rparr>)"
    have "send_command L R ?cmd arriving s1 = queue_get ?S"
      using send_command_connected [of s1 ?cmd data L R arriving] a s1 by simp
    then have "(out, s') = queue_get ?S"
      by (simp add: sc)
    then show "subscribe L R channel cb arriving s =
      (case response_queue ?S of
         [] \<Rightarrow> (Blocks, ?S)
       | r # q \<Rightarrow> (Returns (r = lit ''OK''), ?S\<lparr>response_queue := q\<rparr>))"
      by (cases "response_queue ?S") (auto simp: sub queue_get_def map_outcome_def)
  }
qed

lemma set_value_connected:
  assumes "sock s = Connected"
    and "rendered = (case val of PStr v \<Rightarrow> [34] @ v @ [34] | _ \<Rightarrow> fmt val)"
    and "utf8_encode (lit ''SET '' @ key @ [space] @ rendered @ [nl]) = Inr data"
  shows "sent (snd (set_value L R fmt key val arriving s)) = sent s @ [data]
    \<and> fst (set_value L R fmt key val arriving s) =
        (case response_queue (read_responses L R arriving (s\<lparr>sent := sent s @ [data]\<rparr>)) of
           [] \<Rightarrow> Blocks
         | r # q \<Rightarrow> Returns (r = lit ''OK''))"
proof -
  let ?S = "read_responses L R arriving (s\<lparr>sent := sent s @ [data]\<rparr>)"
  have sc: "send_command L R (lit ''SET '' @ key @ [space] @ rendered) arriving s = queue_get ?S"
    using send_command_connected [OF assms(1), of "lit ''SET '' @ key @ [space] @ rendered" data L R arriving]
      assms(3) by simp
  have sv: "set_value L R fmt key val arriving s =
      (map_outcome (\<lambda>response. response = lit ''OK'') (fst (queue_get ?S)), snd (queue_get ?S))"
    using sc assms(2) by (simp add: set_value_def Let_def split: prod.splits)
  have "sent (snd (queue_get ?S)) = sent s @ [data]"
    by (simp add: queue_get_fields read_responses_fields)
  moreover have "map_outcome (\<lambda>response. response = lit ''OK'') (fst (queue_get ?S)) =
      (case response_queue ?S of [] \<Rightarrow> Blocks | r # q \<Rightarrow> Returns (r = lit ''OK''))"
    by (simp add: queue_get_def map_outcome_def split: list.splits)
  ultimately show ?thesis by (simp add: sv)
qed

text \<open>
  C10. On a connected client, \<open>set\<close> with a string value sends the line \<open>SET\<close>, key,
  and the value between double quotes; with any other value it sends the value's
  rendering as it is. In both cases it returns whether the line it takes from the
  response queue is \<open>OK\<close>, and waits when there is none.
\<close>

theorem set_wire_format:
  assumes "sock s = Connected"
  shows "(utf8_encode (lit ''SET '' @ key @ [space] @ [34] @ v @ [34] @ [nl]) = Inr data \<longrightarrow>
           sent (snd (set_value L R fmt key (PStr v) arriving s)) = sent s @ [data]
           \<and> fst (set_value L R fmt key (PStr v) arriving s) =
               (case response_queue (read_responses L R arriving (s\<lparr>sent := sent s @ [data]\<rparr>)) of
                  [] \<Rightarrow> Blocks
                | r # q \<Rightarrow> Returns (r = lit ''OK'')))
       \<and> ((\<forall>u. val \<noteq> PStr u) \<and> utf8_encode (lit ''SET '' @ key @ [space] @ fmt val @ [nl]) = Inr data'
           \<longrightarrow>
           sent (snd (set_value L R fmt key val arriving s)) = sent s @ [data']
           \<and> fst (set_value L R fmt key val arriving s) =
               (case response_queue (read_responses L R arriving (s\<lparr>sent := sent s @ [data']\<rparr>)) of
                  [] \<Rightarrow> Blocks
                | r # q \<Rightarrow> Returns (r = lit ''OK'')))"
proof (intro conjI impI)
  assume e: "utf8_encode (lit ''SET '' @ key @ [space] @ [34] @ v @ [34] @ [nl]) = Inr data"
  have "utf8_encode (lit ''SET '' @ key @ [space] @ ([34] @ v @ [34]) @ [nl]) = Inr data"
    using e by simp
  with assms set_value_connected [where s = s and val = "PStr v" and rendered = "[34] @ v @ [34]"
      and key = key and data = data and fmt = fmt and L = L and R = R and arriving = arriving]
  show "sent (snd (set_value L R fmt key (PStr v) arriving s)) = sent s @ [data]"
    and "fst (set_value L R fmt key (PStr v) arriving s) =
      (case response_queue (read_responses L R arriving (s\<lparr>sent := sent s @ [data]\<rparr>)) of
         [] \<Rightarrow> Blocks
       | r # q \<Rightarrow> Returns (r = lit ''OK''))"
    by simp_all
next
  assume a: "(\<forall>u. val \<noteq> PStr u)
      \<and> utf8_encode (lit ''SET '' @ key @ [space] @ fmt val @ [nl]) = Inr data'"
  then have r: "fmt val = (case val of PStr v \<Rightarrow> [34] @ v @ [34] | _ \<Rightarrow> fmt val)"
    by (cases val) simp_all
  from a have e: "utf8_encode (lit ''SET '' @ key @ [space] @ fmt val @ [nl]) = Inr data'"
    by simp
  from assms r e set_value_connected [where s = s and val = val and rendered = "fmt val"
      and key = key and data = data' and fmt = fmt and L = L and R = R and arriving = arriving]
  show "sent (snd (set_value L R fmt key val arriving s)) = sent s @ [data']"
    and "fst (set_value L R fmt key val arriving s) =
      (case response_queue (read_responses L R arriving (s\<lparr>sent := sent s @ [data']\<rparr>)) of
         [] \<Rightarrow> Blocks
       | r # q \<Rightarrow> Returns (r = lit ''OK''))"
    by simp_all
qed

text \<open>
  C2, as the code has it. \<open>close\<close> leaves the response queue as it is, and a second
  \<open>close\<close> changes nothing and does not raise. Whatever arrives after \<open>close\<close>, a caller
  in \<open>response_queue.get()\<close> is never handed a failure: it returns a line or waits.
  After \<open>close\<close> the reader starts no turn: if it is not inside \<open>recv\<close> nothing is queued
  any more; if it is, only what that \<open>recv\<close> returns is handled, and nothing after it.
\<close>

theorem close_delivers_no_failure:
  "response_queue (close s) = response_queue s
   \<and> close (close s) = close s
   \<and> fst (queue_get (read_responses L R chunks (close s))) \<noteq> Raised e
   \<and> ((\<forall>b. read_thread s \<noteq> Receiving b) \<longrightarrow>
        response_queue (read_responses L R chunks (close s)) = response_queue s)
   \<and> (read_thread s = Receiving b \<longrightarrow>
        response_queue (read_responses L R (chunk # chunks) (close s)) =
        response_queue (recv_returns L R chunk (close s)))"
proof (intro conjI impI)
  show "response_queue (close s) = response_queue s" and "close (close s) = close s"
    by (simp_all add: close_def)
  show "fst (queue_get (read_responses L R chunks (close s))) \<noteq> Raised e"
    by (simp add: queue_get_def split: list.splits)
  have stopped: "\<not> running (close s)"
    by (simp add: close_def)
  {
    assume "\<forall>b. read_thread s \<noteq> Receiving b"
    then have "\<forall>b. read_thread (close s) \<noteq> Receiving b"
      by (simp add: close_def)
    with stopped have "response_queue (read_responses L R chunks (close s)) =
        response_queue (close s)"
      by (rule read_responses_stopped)
    then show "response_queue (read_responses L R chunks (close s)) = response_queue s"
      by (simp add: close_def)
  }
  {
    assume "read_thread s = Receiving b"
    then have "read_thread (close s) = Receiving b"
      by (simp add: close_def)
    with stopped show "response_queue (read_responses L R (chunk # chunks) (close s)) =
        response_queue (recv_returns L R chunk (close s))"
      by (rule read_responses_in_progress)
  }
qed

text \<open>
  C4, as the code has it. On a socket that is not connected, before \<open>connect\<close> or after
  \<open>close\<close>, \<open>_send_command\<close> raises and leaves the client as it was: the error of encoding
  the command if that fails, else the \<open>OSError\<close> of \<open>socket.send\<close>.
\<close>

theorem send_outside_connected_raises:
  assumes "sock s \<noteq> Connected"
  shows "send_command L R command arriving s =
    (Raised (case utf8_encode (command @ [nl]) of Inl e \<Rightarrow> e | Inr data \<Rightarrow> OSError), s)"
  using assms by (simp add: send_command_def sock_send_def split: sum.splits)

lemma process_lines_done: "nl \<notin> set b \<Longrightarrow> process_lines L R b s = (b, s)"
  by (subst process_lines.simps) simp

text \<open>
  Chunks that each decode give the same result however the text is cut into them.
\<close>

lemma framing_chunk_independent:
  assumes "decode_chunks cs = Some ts" "decode_chunks cs' = Some ts'" "concat ts = concat ts'"
    and "read_thread s = Looping b" "nl \<notin> set b" "running s" "sock s = Connected"
  shows "read_responses L R cs s = read_responses L R cs' s"
  using read_responses_text [OF assms(1,4-7), of L R] read_responses_text [OF assms(2,4-7), of L R]
    assms(3)
  by simp

text \<open>
  C6, at the failing input. The bytes C3 A9 0A are the letter U+00E9 and a newline.
  In one chunk they give the line to the response queue. Cut after the first byte,
  the first chunk does not decode: the reader prints the error and exits, and the
  line is never framed.
\<close>

theorem split_character_stops_reader:
  "read_responses sample_loads never_raises [[195, 169, 10]] client0 =
     client0\<lparr>response_queue := [[233]]\<rparr>
   \<and> read_responses sample_loads never_raises [[195], [169, 10]] client0 =
     client0\<lparr>read_thread := Exited, console := [PrintedReadError UnicodeDecodeError]\<rparr>"
proof -
  have d: "utf8_decode [195, 169, 10] = Inr [233, 10]"
    "utf8_decode [195] = Inl UnicodeDecodeError"
    by (simp_all add: utf8_decode_def is_cont_def cons_ok_def nl_def)
  have h: "handle_line sample_loads never_raises [233] client0 =
      client0\<lparr>response_queue := [[233]]\<rparr>"
    by (simp add: handle_line_def startswith_def lit_def py_strip_def py_isspace_def client0_def)
  have p: "process_lines sample_loads never_raises [233, 10] client0 =
      ([], client0\<lparr>response_queue := [[233]]\<rparr>)"
    using process_lines_frame [of "[]" sample_loads never_raises "[233, 10]" client0]
    by (simp add: nl_def h)
  have c: "read_thread client0 = Looping []" "running client0" "sock client0 = Connected"
    by (simp_all add: client0_def)
  have 1: "reader_iter sample_loads never_raises [195, 169, 10] client0 =
      client0\<lparr>response_queue := [[233]]\<rparr>"
    using p by (simp add: reader_iter_turn c d)
  have 2: "reader_iter sample_loads never_raises [195] client0 =
      client0\<lparr>read_thread := Exited, console := [PrintedReadError UnicodeDecodeError]\<rparr>"
    by (simp add: reader_iter_turn c d) (simp add: client0_def)
  have 3: "reader_iter sample_loads never_raises [169, 10]
      (client0\<lparr>read_thread := Exited, console := [PrintedReadError UnicodeDecodeError]\<rparr>) =
      client0\<lparr>read_thread := Exited, console := [PrintedReadError UnicodeDecodeError]\<rparr>"
    by (simp add: reader_iter_turn)
  show ?thesis by (simp add: 1 2 3)
qed

section \<open>Sample runs of the calling thread\<close>

text \<open>The sample client is what \<open>connect\<close> makes of a new one.\<close>

lemma connect_init: "connect True init = Inr client0"
  by (simp add: connect_def init_def client0_def)

lemma get_k_bytes: "utf8_encode (lit ''GET k'' @ [nl]) = Inr [71, 69, 84, 32, 107, 10]"
  by (simp add: encode_point_def lit_def nl_def)

lemma waiting_in_recv:
  "loop_top waiting = waiting\<lparr>read_thread := Receiving []\<rparr>"
  by (simp add: loop_top_def waiting_def client0_def)

lemma ok_received_after_close:
  "recv_returns sample_loads never_raises [79, 75, 10] (close (loop_top waiting)) =
     (close (loop_top waiting))\<lparr>response_queue := [lit ''OK''], read_thread := Looping []\<rparr>"
proof -
  let ?s = "close (loop_top waiting)"
  have d: "utf8_decode [79, 75, 10] = Inr [79, 75, 10]"
    by (simp add: utf8_decode_def cons_ok_def)
  have t: "read_thread ?s = Receiving []" "response_queue ?s = []"
    by (simp_all add: close_def waiting_in_recv) (simp add: waiting_def client0_def)
  have h: "handle_line sample_loads never_raises [79, 75] ?s = ?s\<lparr>response_queue := [lit ''OK'']\<rparr>"
    by (simp add: handle_line_def startswith_def py_strip_def py_isspace_def lit_def t(2))
  have "process_lines sample_loads never_raises [79, 75, 10] ?s =
      ([], ?s\<lparr>response_queue := [lit ''OK'']\<rparr>)"
    using process_lines_frame [of "[]" sample_loads never_raises "[79, 75, 10]" ?s]
    by (simp add: nl_def h)
  then show ?thesis
    by (simp add: recv_returns_def t(1) d)
qed

text \<open>
  The waiting client is closed with its reader at the top of the loop, and with its
  reader inside \<open>recv\<close>; \<open>OK\<close> arrives twice after that.
\<close>

theorem close_delivers_no_failure_witness:
  "(\<forall>b. read_thread waiting \<noteq> Receiving b)
   \<and> response_queue (read_responses sample_loads never_raises [[79, 75, 10], [79, 75, 10]]
        (close waiting)) = []
   \<and> read_thread (loop_top waiting) = Receiving []
   \<and> response_queue (read_responses sample_loads never_raises [[79, 75, 10], [79, 75, 10]]
        (close (loop_top waiting))) = [lit ''OK'']
   \<and> close (close waiting) = close waiting"
proof -
  have 1: "\<forall>b. read_thread waiting \<noteq> Receiving b" "response_queue waiting = []"
    by (simp_all add: waiting_def client0_def)
  have 2: "read_thread (loop_top waiting) = Receiving []"
    by (simp add: waiting_in_recv)
  show ?thesis
    using close_delivers_no_failure [of waiting sample_loads never_raises
        "[[79, 75, 10], [79, 75, 10]]"]
      close_delivers_no_failure [of "loop_top waiting" sample_loads never_raises
        "[[79, 75, 10]]" _ "[]" "[79, 75, 10]"]
      1 2
    by (simp add: ok_received_after_close del: read_responses.simps)
qed

text \<open>
  Against C2 as stated: the caller of \<open>GET k\<close> waits; after \<open>close\<close> it still waits, no
  failure having been handed to it; and when the reader was inside \<open>recv\<close> and \<open>OK\<close>
  arrives after \<open>close\<close>, the caller returns \<open>OK\<close>, not a failure.
\<close>

theorem waiter_gets_no_failure_after_close:
  "send_command sample_loads never_raises (lit ''GET k'') [] client0 = (Blocks, waiting)
   \<and> fst (queue_get (close waiting)) = Blocks
   \<and> fst (queue_get (read_responses sample_loads never_raises [[79, 75, 10]]
        (close (loop_top waiting)))) = Returns (lit ''OK'')"
proof -
  have 1: "send_command sample_loads never_raises (lit ''GET k'') [] client0 = (Blocks, waiting)"
    by (simp add: send_command_def get_k_bytes sock_send_def queue_get_def waiting_def client0_def)
  have 2: "fst (queue_get (close waiting)) = Blocks"
    by (simp add: queue_get_def close_def waiting_def client0_def)
  have "loop_top (close (loop_top waiting)) = close (loop_top waiting)"
    by (simp only: waiting_in_recv) (simp add: loop_top_def close_def)
  then have "read_responses sample_loads never_raises [[79, 75, 10]] (close (loop_top waiting)) =
      (close (loop_top waiting))\<lparr>response_queue := [lit ''OK''], read_thread := Looping []\<rparr>"
    by (simp add: reader_iter_def ok_received_after_close)
  then have 3: "fst (queue_get (read_responses sample_loads never_raises [[79, 75, 10]]
      (close (loop_top waiting)))) = Returns (lit ''OK'')"
    by (simp add: queue_get_def)
  from 1 2 3 show ?thesis by simp
qed

text \<open>\<open>GET k\<close> on a closed client and on a client never connected.\<close>

theorem send_outside_connected_raises_witness:
  "sock (close client0) \<noteq> Connected
   \<and> send_command sample_loads never_raises (lit ''GET k'') [] (close client0) =
       (Raised OSError, close client0)
   \<and> sock (init :: nat client) \<noteq> Connected
   \<and> send_command sample_loads never_raises (lit ''GET k'') [] (init :: nat client) =
       (Raised OSError, init)"
proof -
  have 1: "sock (close client0) \<noteq> Connected" "sock (init :: nat client) \<noteq> Connected"
    by (simp_all add: close_def init_def)
  show ?thesis
    using send_outside_connected_raises [OF 1(1), of sample_loads never_raises "lit ''GET k''" "[]"]
      send_outside_connected_raises [OF 1(2), of sample_loads never_raises "lit ''GET k''" "[]"]
      1
    by (simp add: get_k_bytes)
qed

text \<open>
  Against C4 as stated: on a closed client a command that holds a lone surrogate
  fails in \<open>encode\<close>, with \<open>UnicodeEncodeError\<close>, before \<open>socket.send\<close> is reached.
\<close>

theorem encoding_fails_before_send:
  "sock (close client0) \<noteq> Connected
   \<and> send_command sample_loads never_raises [55296] [] (close client0) =
       (Raised UnicodeEncodeError, close client0)"
  by (simp add: send_command_def encode_point_def close_def nl_def)


lemma subscribe_news_bytes:
  "utf8_encode (lit ''SUBSCRIBE news'' @ [nl]) = Inr (ascii ''SUBSCRIBE news'' @ [10])"
  by (simp add: encode_point_def lit_def nl_def ascii_def)

lemma news_then_err_text:
  "utf8_decode news_then_err =
     Inr (lit ''Message news {\"Type\": 1, \"Content\": \"hi\"}'' @ nl # lit ''ERR'' @ [nl])"
  by (simp add: news_then_err_def utf8_decode_def ascii_def cons_ok_def lit_def nl_def)

lemma err_line:
  "handle_line L R (lit ''ERR'') s = s\<lparr>response_queue := response_queue s @ [lit ''ERR'']\<rparr>"
  by (simp add: handle_line_def startswith_def py_strip_def py_isspace_def lit_def)

text \<open>
  A first subscription to \<open>news\<close>, refused by the server with \<open>ERR\<close>: a push
  notification that arrives before the refusal has reached the callback already,
  and the callback stays registered. The same subscription on a closed client: it
  raises, and the callback is registered.
\<close>

theorem subscribe_registers_before_sending_witness:
  "fst (subscribe sample_loads never_raises (lit ''news'') 7 [news_then_err] client0) = Returns False
   \<and> subscriptions (snd (subscribe sample_loads never_raises (lit ''news'') 7 [news_then_err]
         client0)) (lit ''news'') = Some [7]
   \<and> console (snd (subscribe sample_loads never_raises (lit ''news'') 7 [news_then_err]
         client0)) = [Invoked 7 (PStr (lit ''hi''))]
   \<and> sent (snd (subscribe sample_loads never_raises (lit ''news'') 7 [news_then_err]
         client0)) = [ascii ''SUBSCRIBE news'' @ [10]]
   \<and> sock (close client0) \<noteq> Connected
   \<and> subscribe sample_loads never_raises (lit ''news'') 7 [] (close client0) =
       (Raised OSError, (close client0)\<lparr>subscriptions := [lit ''news'' \<mapsto> [7]]\<rparr>)"
proof -
  let ?line = "lit ''Message news {\"Type\": 1, \"Content\": \"hi\"}''"
  let ?s1 = "client0\<lparr>subscriptions := [lit ''news'' \<mapsto> [7]],
                       sent := [ascii ''SUBSCRIBE news'' @ [10]]\<rparr>"
  let ?s2 = "?s1\<lparr>console := [Invoked 7 (PStr (lit ''hi''))]\<rparr>"
  let ?s3 = "?s2\<lparr>response_queue := [lit ''ERR'']\<rparr>"
  have nls: "nl \<notin> set ?line" "nl \<notin> set (lit ''ERR'')"
    by (simp_all add: lit_def nl_def)
  have c: "subscriptions ?s1 (lit ''news'') = Some [7]" "console ?s1 = []"
    "read_thread ?s1 = Looping []" "running ?s1" "sock ?s1 = Connected" "response_queue ?s2 = []"
    by (simp_all add: client0_def)
  have "dispatch sample_loads never_raises
      (lit ''Message '' @ lit ''news'' @ space # lit ''{\"Type\": 1, \"Content\": \"hi\"}'') ?s1 =
      call_all never_raises (PInt 1) [7] (PStr (lit ''hi'')) (console ?s1)"
    by (rule dispatch_reaches_callbacks [where message =
          "PDict [(lit ''Type'', PInt 1), (lit ''Content'', PStr (lit ''hi''))]"])
      (simp_all add: sample_text_envelope c(1), simp add: lit_def space_def)
  then have d: "dispatch sample_loads never_raises ?line ?s1 =
      (None, [Invoked 7 (PStr (lit ''hi''))])"
    by (simp add: text_line [symmetric] c(2) sample_text_envelope(4) never_raises_def)
  have sw: "?line \<noteq> []" "startswith ?line (lit ''Message'')"
    by (simp_all add: startswith_def lit_def)
  have h: "handle_line sample_loads never_raises ?line ?s1 = ?s2"
    by (simp only: handle_line_def sw d if_True if_False prod.case option.case)
  have e: "handle_line sample_loads never_raises (lit ''ERR'') ?s2 = ?s3"
    by (simp only: err_line c(6) append_Nil)
  have "process_lines sample_loads never_raises (?line @ nl # lit ''ERR'' @ nl # []) ?s1 =
      process_lines sample_loads never_raises (lit ''ERR'' @ nl # []) ?s2"
    by (simp only: process_lines_step [OF nls(1)] h)
  also have "\<dots> = process_lines sample_loads never_raises [] ?s3"
    by (simp only: process_lines_step [OF nls(2)] e)
  also have "\<dots> = ([], ?s3)"
    by (rule process_lines_done) simp
  finally have p: "process_lines sample_loads never_raises
      ([] @ ?line @ nl # lit ''ERR'' @ [nl]) ?s1 = ([], ?s3)"
    by (simp only: append_Nil)
  have ne: "?line @ nl # lit ''ERR'' @ [nl] \<noteq> []"
    by simp
  have r: "reader_iter sample_loads never_raises news_then_err ?s1 = ?s3\<lparr>read_thread := Looping []\<rparr>"
    by (simp only: reader_iter_turn c(3,4,5) news_then_err_text ne p thread.case sum.case
        prod.case if_False if_True simp_thms)
  have s3: "?s3\<lparr>read_thread := Looping []\<rparr> = ?s3"
    by (simp add: client0_def)
  have rr: "read_responses sample_loads never_raises [news_then_err] ?s1 = ?s3"
    by (simp only: read_responses.simps r s3)
  have g: "queue_get ?s3 = (Returns (lit ''ERR''), ?s3\<lparr>response_queue := []\<rparr>)"
    by (simp add: queue_get_def)
  have ss: "sock_send (ascii ''SUBSCRIBE news'' @ [10])
      (client0\<lparr>subscriptions := [lit ''news'' \<mapsto> [7]]\<rparr>) = Inr ?s1"
    by (simp add: sock_send_def client0_def)
  have cmd: "lit ''SUBSCRIBE '' @ lit ''news'' = lit ''SUBSCRIBE news''"
    by (simp add: lit_def)
  have sc: "send_command sample_loads never_raises (lit ''SUBSCRIBE '' @ lit ''news'') [news_then_err]
      (client0\<lparr>subscriptions := [lit ''news'' \<mapsto> [7]]\<rparr>) =
      (Returns (lit ''ERR''), ?s3\<lparr>response_queue := []\<rparr>)"
    by (simp only: send_command_def cmd subscribe_news_bytes ss rr g sum.case)
  have reg: "client0\<lparr>subscriptions := (subscriptions client0)
      (lit ''news'' \<mapsto> (case subscriptions client0 (lit ''news'') of None \<Rightarrow> [] | Some cbs \<Rightarrow> cbs) @ [7])\<rparr>
      = client0\<lparr>subscriptions := [lit ''news'' \<mapsto> [7]]\<rparr>"
    by (simp add: client0_def)
  have ok: "(lit ''ERR'' = lit ''OK'') = False"
    by (simp add: lit_def)
  have sub: "subscribe sample_loads never_raises (lit ''news'') 7 [news_then_err] client0 =
      (Returns False, ?s3\<lparr>response_queue := []\<rparr>)"
    by (simp only: subscribe_def Let_def reg sc prod.case map_outcome_def outcome.case ok)
  have reg': "(close client0)\<lparr>subscriptions := (subscriptions (close client0))
      (lit ''news'' \<mapsto> (case subscriptions (close client0) (lit ''news'') of None \<Rightarrow> [] | Some cbs \<Rightarrow> cbs) @ [7])\<rparr>
      = (close client0)\<lparr>subscriptions := [lit ''news'' \<mapsto> [7]]\<rparr>"
    by (simp add: client0_def close_def)
  have nc: "sock (close client0) \<noteq> Connected"
    "sock ((close client0)\<lparr>subscriptions := [lit ''news'' \<mapsto> [7]]\<rparr>) \<noteq> Connected"
    by (simp_all add: close_def)
  have ss': "sock_send (ascii ''SUBSCRIBE news'' @ [10])
      ((close client0)\<lparr>subscriptions := [lit ''news'' \<mapsto> [7]]\<rparr>) = Inl OSError"
    using nc(2) by (simp add: sock_send_def)
  have sc': "send_command sample_loads never_raises (lit ''SUBSCRIBE '' @ lit ''news'') []
      ((close client0)\<lparr>subscriptions := [lit ''news'' \<mapsto> [7]]\<rparr>) =
      (Raised OSError, (close client0)\<lparr>subscriptions := [lit ''news'' \<mapsto> [7]]\<rparr>)"
    by (simp only: send_command_def cmd subscribe_news_bytes ss' sum.case)
  have sub': "subscribe sample_loads never_raises (lit ''news'') 7 [] (close client0) =
      (Raised OSError, (close client0)\<lparr>subscriptions := [lit ''news'' \<mapsto> [7]]\<rparr>)"
    by (simp only: subscribe_def Let_def reg' sc' prod.case map_outcome_def outcome.case)
  have conn: "sock client0 = Connected"
    by (simp add: client0_def)
  show ?thesis
    using subscribe_registers_before_sending [where s = client0
        and ?s1.0 = "client0\<lparr>subscriptions := [lit ''news'' \<mapsto> [7]]\<rparr>"
        and channel = "lit ''news''" and cb = 7 and L = sample_loads and R = never_raises
        and arriving = "[news_then_err]" and data = "ascii ''SUBSCRIBE news'' @ [10]"]
      subscribe_registers_before_sending [where s = "close client0"
        and ?s1.0 = "(close client0)\<lparr>subscriptions := [lit ''news'' \<mapsto> [7]]\<rparr>"
        and channel = "lit ''news''" and cb = 7 and L = sample_loads and R = never_raises
        and arriving = "[]" and data = "ascii ''SUBSCRIBE news'' @ [10]"]
      reg [symmetric] reg' [symmetric] nc(1) conn subscribe_news_bytes
    by (simp add: sub sub') (simp add: client0_def)
qed


lemma set_greeting_bytes:
  "utf8_encode (lit ''SET '' @ lit ''greeting'' @ [space] @ [34] @ lit ''hi'' @ [34] @ [nl]) =
     Inr (ascii ''SET greeting \"hi\"'' @ [10])"
  "utf8_encode (lit ''SET '' @ lit ''number'' @ [space] @ render_42 (PInt 42) @ [nl]) =
     Inr (ascii ''SET number 42'' @ [10])"
  by (simp_all add: encode_point_def lit_def nl_def space_def ascii_def render_42_def)

lemma ok_arrives:
  assumes "read_thread s = Looping []" "running s" "sock s = Connected" "response_queue s = []"
  shows "response_queue (read_responses L R [[79, 75, 10]] s) = [lit ''OK'']"
proof -
  have d: "decode_chunks [[79, 75, 10]] = Some [[79, 75, 10]]"
    by (simp add: utf8_decode_def cons_ok_def)
  have f: "frame [] (concat [[79, 75, 10]]) = ([[79, 75]], [])"
    by (simp add: nl_def)
  have r: "is_response [79, 75]" "py_strip [79, 75] = lit ''OK''"
    by (simp_all add: is_response_def startswith_def py_strip_def py_isspace_def lit_def)
  show ?thesis
    using read_responses_text [OF d assms(1) _ assms(2,3), of L R] assms(4)
    by (simp only: f fst_conv snd_conv) (simp add: fold_handle_line_queue handle_line_queue r)
qed

text \<open>\<open>set("greeting", "hi")\<close> and \<open>set("number", 42)\<close>, both answered by \<open>OK\<close>.\<close>

theorem set_wire_format_witness:
  "sock client0 = Connected
   \<and> sent (snd (set_value sample_loads never_raises render_42 (lit ''greeting'') (PStr (lit ''hi''))
        [[79, 75, 10]] client0)) = [ascii ''SET greeting \"hi\"'' @ [10]]
   \<and> fst (set_value sample_loads never_raises render_42 (lit ''greeting'') (PStr (lit ''hi''))
        [[79, 75, 10]] client0) = Returns True
   \<and> sent (snd (set_value sample_loads never_raises render_42 (lit ''number'') (PInt 42)
        [[79, 75, 10]] client0)) = [ascii ''SET number 42'' @ [10]]
   \<and> fst (set_value sample_loads never_raises render_42 (lit ''number'') (PInt 42)
        [[79, 75, 10]] client0) = Returns True"
proof -
  have c: "sock client0 = Connected" "sent client0 = []"
    by (simp_all add: client0_def)
  have q: "response_queue (read_responses sample_loads never_raises [[79, 75, 10]]
      (client0\<lparr>sent := ds\<rparr>)) = [lit ''OK'']" for ds
    by (rule ok_arrives) (simp_all add: client0_def)
  have n: "\<forall>u. PInt 42 \<noteq> PStr u" by simp
  show ?thesis
    using set_wire_format [OF c(1), of "lit ''greeting''" "lit ''hi''"
        "ascii ''SET greeting \"hi\"'' @ [10]" sample_loads never_raises render_42 "[[79, 75, 10]]"
        "PInt 42" "ascii ''SET number 42'' @ [10]"]
      set_wire_format [OF c(1), of "lit ''number''" "lit ''hi''"
        "ascii ''SET greeting \"hi\"'' @ [10]" sample_loads never_raises render_42 "[[79, 75, 10]]"
        "PInt 42" "ascii ''SET number 42'' @ [10]"]
      set_greeting_bytes n
    by (simp add: q c del: read_responses.simps)
qed

end
